theory Spec2Isabelle
  imports Main "HOL-Library.AList"
begin

section \<open>Data model of packages/fluoride/index.ts\<close>

text \<open>
  \<open>Error s\<close> is a plain \<open>new Error(s)\<close>; \<open>TypeError\<close> is what
  \<open>Object.defineProperty\<close> throws when it redefines a non-configurable property, what
  calling a method of \<open>undefined\<close> throws, and what a conversion to string throws when
  it yields no primitive.
\<close>

datatype error = Error string | TypeError

text \<open>
  An interface token (\<open>Interface<T>\<close>) is a class used as a name. The map of bindings
  compares tokens by identity; the only other thing the code does with a token is to
  convert it to a string, in the template literal of \<open>resolve\<close>. That conversion runs
  the token's own \<open>Symbol.toPrimitive\<close> or \<open>toString\<close> (for a plain class,
  \<open>Function.prototype.toString\<close>, which gives the source text): it yields a string or
  throws. A token is its identity together with the outcome of that conversion; two
  distinct tokens may have the same text.

  A user class passed as \<open>ctor\<close> is described by its own identity and by the interfaces
  its constructor body resolves from the graph it is given, in order (as
  \<open>Thermosiphon\<close> resolves \<open>Heater\<close> in the example).
\<close>

datatype iface = Interface (ident: nat) (toString: "error + string")

record ctor =
  cls :: nat
  needs :: "iface list"

text \<open>
  Values that flow through \<open>resolve\<close> and the scope caches: a constructed instance
  (identified by its allocation index) or the function \<open>scopes.singleton\<close> itself, which
  \<open>scopes.weak\<close> stores in its cache. Both are truthy in JavaScript.
\<close>

datatype val = Inst nat | SingletonFn

datatype scope = ScopeNone | ScopeSingleton | ScopeWeak

text \<open>
  The two closures the builder creates: \<open>() => new ctor()\<close> in \<open>start\<close> and
  \<open>graph => new ctor(graph)\<close> in \<open>add\<close>. A binding is the closure \<open>scope(maker)\<close>
  stored in the map, kept as the pair it was built from.
\<close>

datatype maker = NewEmpty ctor | NewGraph ctor

type_synonym binding = "scope \<times> maker"
type_synonym bindings = "(iface \<times> binding) list"
type_synonym cache = "(iface \<times> val) list"

datatype symbol = singletonSymbol | weakSymbol

text \<open>
  The hidden, non-configurable and non-writable properties a graph object may own. Such a
  property is defined once with a fresh map and never points anywhere else afterwards,
  so the map object is identified with the property that holds it.
\<close>

record hidden =
  prop_singleton :: "cache option"
  prop_weak :: "cache option"

text \<open>
  The heap: every instance allocated by \<open>new\<close> (its class, at its allocation index),
  every \<open>Map\<close> of bindings (at its address), and the hidden properties of every
  \<open>Graph\<close> object (at its identity).
\<close>

record world =
  objects :: "nat list"
  map_store :: "bindings list"
  graph_store :: "hidden list"

text \<open>
  A \<open>Graph\<close> reference carries the object's identity and its \<open>private readonly map\<close>
  field; a \<open>GraphBuilder\<close> carries its \<open>private readonly map\<close> field.
\<close>

datatype graph = Graph (gid: nat) (gmap: nat)

datatype builder = GraphBuilder (bmap: nat)

type_synonym 'a comp = "world \<Rightarrow> ((error + 'a) \<times> world) option"

definition init_world :: world where
  "init_world = \<lparr>objects = [], map_store = [], graph_store = []\<rparr>"

section \<open>Maps of bindings\<close>

definition map_at :: "world \<Rightarrow> nat \<Rightarrow> bindings" where
  "map_at w a = (if a < length (map_store w) then map_store w ! a else [])"

definition new_Map :: "bindings \<Rightarrow> world \<Rightarrow> nat \<times> world" where
  "new_Map src w = (length (map_store w), w\<lparr>map_store := map_store w @ [src]\<rparr>)"

definition map_set :: "nat \<Rightarrow> iface \<Rightarrow> binding \<Rightarrow> world \<Rightarrow> world" where
  "map_set a k v w = w\<lparr>map_store := (map_store w)[a := AList.update k v (map_at w a)]\<rparr>"

section \<open>Hidden properties of a graph object\<close>

definition getOwnPropertyDescriptor :: "world \<Rightarrow> graph \<Rightarrow> symbol \<Rightarrow> cache option" where
  "getOwnPropertyDescriptor w g s =
     (if gid g < length (graph_store w)
      then (case s of
              singletonSymbol \<Rightarrow> prop_singleton (graph_store w ! gid g)
            | weakSymbol \<Rightarrow> prop_weak (graph_store w ! gid g))
      else None)"

definition set_prop :: "graph \<Rightarrow> symbol \<Rightarrow> cache \<Rightarrow> world \<Rightarrow> world" where
  "set_prop g s c w =
     w\<lparr>graph_store := (graph_store w)[gid g :=
          (case s of
             singletonSymbol \<Rightarrow> (graph_store w ! gid g)\<lparr>prop_singleton := Some c\<rparr>
           | weakSymbol \<Rightarrow> (graph_store w ! gid g)\<lparr>prop_weak := Some c\<rparr>)]\<rparr>"

text \<open>
  \<open>Object.defineProperty(graph, s, {configurable: false, enumerable: false, value: m})\<close>
  for a map \<open>m\<close> that was just created: it throws when the property exists already,
  since the existing value is another object.
\<close>

definition defineProperty :: "graph \<Rightarrow> symbol \<Rightarrow> cache \<Rightarrow> world \<Rightarrow> (error + unit) \<times> world" where
  "defineProperty g s fresh w =
     (case getOwnPropertyDescriptor w g s of
        Some _ \<Rightarrow> (Inl TypeError, w)
      | None \<Rightarrow> (Inr (), set_prop g s fresh w))"

definition cache_get :: "world \<Rightarrow> graph \<Rightarrow> symbol \<Rightarrow> iface \<Rightarrow> val option" where
  "cache_get w g s i =
     (case getOwnPropertyDescriptor w g s of None \<Rightarrow> None | Some c \<Rightarrow> map_of c i)"

definition cache_set :: "graph \<Rightarrow> symbol \<Rightarrow> iface \<Rightarrow> val \<Rightarrow> world \<Rightarrow> world" where
  "cache_set g s i v w =
     (case getOwnPropertyDescriptor w g s of
        None \<Rightarrow> w
      | Some c \<Rightarrow> set_prop g s (AList.update i v c) w)"

section \<open>Scopes\<close>

definition none :: "(graph \<Rightarrow> val comp) \<Rightarrow> graph \<Rightarrow> iface \<Rightarrow> val comp" where
  "none maker graph iface = maker graph"

text \<open>
  \<open>singletonMap\<close> is the value of the property under \<open>singletonSymbol\<close>: the existing
  one, or the new map that is installed at once. \<open>singletonMap.get(iface) || maker(graph)\<close>
  reads it before the maker runs, \<open>singletonMap.set(iface, value)\<close> writes it afterwards.
\<close>

definition singleton :: "(graph \<Rightarrow> val comp) \<Rightarrow> graph \<Rightarrow> iface \<Rightarrow> val comp" where
  "singleton maker graph iface w =
     (let descriptor = getOwnPropertyDescriptor w graph singletonSymbol in
      case (if descriptor = None then defineProperty graph singletonSymbol [] w
            else (Inr (), w)) of
        (Inl e, w1) \<Rightarrow> Some (Inl e, w1)
      | (Inr _, w1) \<Rightarrow>
          (case (case cache_get w1 graph singletonSymbol iface of
                   Some v \<Rightarrow> Some (Inr v, w1)
                 | None \<Rightarrow> maker graph w1) of
             None \<Rightarrow> None
           | Some (Inl e, w2) \<Rightarrow> Some (Inl e, w2)
           | Some (Inr value, w2) \<Rightarrow>
               Some (Inr value, cache_set graph singletonSymbol iface value w2)))"

text \<open>
  \<open>weakMap\<close> is the value of the property under \<open>weakSymbol\<close> when there is one;
  otherwise it is a new map, which the code installs under \<open>singletonSymbol\<close>.
  \<open>holder\<close> names the property whose value \<open>weakMap\<close> is once the definition went
  through. The code ends with \<open>weakMap.set(iface, singleton)\<close>.
\<close>

definition weak :: "(graph \<Rightarrow> val comp) \<Rightarrow> graph \<Rightarrow> iface \<Rightarrow> val comp" where
  "weak maker graph iface w =
     (let descriptor = getOwnPropertyDescriptor w graph weakSymbol;
          holder = (if descriptor = None then singletonSymbol else weakSymbol) in
      case (if descriptor = None then defineProperty graph singletonSymbol [] w
            else (Inr (), w)) of
        (Inl e, w1) \<Rightarrow> Some (Inl e, w1)
      | (Inr _, w1) \<Rightarrow>
          (case (case cache_get w1 graph holder iface of
                   Some v \<Rightarrow> Some (Inr v, w1)
                 | None \<Rightarrow> maker graph w1) of
             None \<Rightarrow> None
           | Some (Inl e, w2) \<Rightarrow> Some (Inl e, w2)
           | Some (Inr value, w2) \<Rightarrow>
               Some (Inr value, cache_set graph holder iface SingletonFn w2)))"

fun apply_scope :: "scope \<Rightarrow> (graph \<Rightarrow> val comp) \<Rightarrow> graph \<Rightarrow> iface \<Rightarrow> val comp" where
  "apply_scope ScopeNone = none"
| "apply_scope ScopeSingleton = singleton"
| "apply_scope ScopeWeak = weak"

section \<open>Constructors and resolution\<close>

text \<open>
  The body of a user constructor: \<open>graph.resolve(d)\<close> for each interface it needs.
  \<open>res\<close> is the \<open>resolve\<close> method; the graph is absent when the constructor was called
  as \<open>new ctor()\<close>, and then the first \<open>graph.resolve\<close> throws.
\<close>

fun ctor_body :: "(graph \<Rightarrow> iface \<Rightarrow> val comp) \<Rightarrow> graph option \<Rightarrow> iface list \<Rightarrow> unit comp" where
  "ctor_body res garg [] w = Some (Inr (), w)"
| "ctor_body res None (d # ds) w = Some (Inl TypeError, w)"
| "ctor_body res (Some g) (d # ds) w =
     (case res g d w of
        None \<Rightarrow> None
      | Some (Inl e, w1) \<Rightarrow> Some (Inl e, w1)
      | Some (Inr _, w1) \<Rightarrow> ctor_body res (Some g) ds w1)"

text \<open>\<open>new c(garg)\<close>: the instance is allocated, then the constructor body runs.\<close>

definition new_ctor :: "(graph \<Rightarrow> iface \<Rightarrow> val comp) \<Rightarrow> ctor \<Rightarrow> graph option \<Rightarrow> val comp" where
  "new_ctor res c garg w =
     (let this = length (objects w);
          w1 = w\<lparr>objects := objects w @ [cls c]\<rparr> in
      case ctor_body res garg (needs c) w1 of
        None \<Rightarrow> None
      | Some (Inl e, w2) \<Rightarrow> Some (Inl e, w2)
      | Some (Inr _, w2) \<Rightarrow> Some (Inr (Inst this), w2))"

fun run_maker :: "(graph \<Rightarrow> iface \<Rightarrow> val comp) \<Rightarrow> maker \<Rightarrow> graph \<Rightarrow> val comp" where
  "run_maker res (NewEmpty c) graph = new_ctor res c None"
| "run_maker res (NewGraph c) graph = new_ctor res c (Some graph)"

definition provider_of :: "world \<Rightarrow> graph \<Rightarrow> iface \<Rightarrow> binding option" where
  "provider_of w g i = map_of (map_at w (gmap g)) i"

text \<open>
  What \<open>throw new Error(`Unsatisfied dependency for ${iface}`)\<close> throws: the template
  literal converts the token first, so when the conversion throws, that is the error;
  otherwise it is a plain \<open>Error\<close> whose message ends with the token's text.
\<close>

definition unsatisfied :: "iface \<Rightarrow> error" where
  "unsatisfied i =
     (case toString i of
        Inl e \<Rightarrow> e
      | Inr s \<Rightarrow> Error (''Unsatisfied dependency for '' @ s))"

text \<open>
  \<open>Graph.resolve\<close>. The fuel bounds the nesting depth of \<open>resolve\<close> calls; \<open>None\<close> is a
  resolution that does not return (a provider that needs its own interface recurses
  forever). The lookup and its error need no fuel.
\<close>

primrec resolve :: "nat \<Rightarrow> graph \<Rightarrow> iface \<Rightarrow> val comp" where
  "resolve 0 g i w =
     (case provider_of w g i of
        None \<Rightarrow> Some (Inl (unsatisfied i), w)
      | Some p \<Rightarrow> None)"
| "resolve (Suc n) g i w =
     (case provider_of w g i of
        None \<Rightarrow> Some (Inl (unsatisfied i), w)
      | Some p \<Rightarrow> apply_scope (fst p) (run_maker (resolve n) (snd p)) g i w)"

section \<open>Graph and GraphBuilder\<close>

text \<open>The \<open>Graph\<close> constructor copies the map it is given: \<open>this.map = new Map(map)\<close>.\<close>

definition new_Graph :: "nat \<Rightarrow> world \<Rightarrow> graph \<times> world" where
  "new_Graph m w =
     (let (m', w1) = new_Map (map_at w m) w in
      (Graph (length (graph_store w1)) m',
       w1\<lparr>graph_store := graph_store w1 @ [\<lparr>prop_singleton = None, prop_weak = None\<rparr>]\<rparr>))"

text \<open>\<open>modify\<close> hands the graph's own map to the new builder: \<open>new GraphBuilder(this.map)\<close>.\<close>

definition modify :: "graph \<Rightarrow> builder" where
  "modify g = GraphBuilder (gmap g)"

text \<open>The default parameter \<open>scope = scopes.none\<close>.\<close>

definition scope_or_default :: "scope option \<Rightarrow> scope" where
  "scope_or_default s = (case s of None \<Rightarrow> ScopeNone | Some sc \<Rightarrow> sc)"

definition start :: "iface \<Rightarrow> ctor \<Rightarrow> scope option \<Rightarrow> world \<Rightarrow> builder \<times> world" where
  "start impl c sc w =
     (let (m, w1) = new_Map [] w;
          w2 = map_set m impl (scope_or_default sc, NewEmpty c) w1 in
      (GraphBuilder m, w2))"

definition add :: "builder \<Rightarrow> iface \<Rightarrow> ctor \<Rightarrow> scope option \<Rightarrow> world \<Rightarrow> builder \<times> world" where
  "add b impl c sc w =
     (let (m, w1) = new_Map (map_at w (bmap b)) w;
          w2 = map_set m impl (scope_or_default sc, NewGraph c) w1 in
      (GraphBuilder m, w2))"

definition build :: "builder \<Rightarrow> world \<Rightarrow> graph \<times> world" where
  "build b w = new_Graph (bmap b) w"

section \<open>What a resolution may change\<close>

text \<open>
  \<open>installed g w\<close> is the heap once a new, empty map has been defined under
  \<open>singletonSymbol\<close> on a graph that had none.
\<close>

definition installed :: "graph \<Rightarrow> world \<Rightarrow> world" where
  "installed g w =
     (if getOwnPropertyDescriptor w g singletonSymbol = None
      then set_prop g singletonSymbol [] w else w)"

text \<open>
  \<open>frame g w w'\<close> bounds the effect of a resolution on graph \<open>g\<close> that leads from
  heap \<open>w\<close> to \<open>w'\<close>: the maps of bindings are untouched, no graph appears or
  disappears, instances are only allocated, other graphs keep their hidden properties, and
  on \<open>g\<close> itself no property is defined under \<open>weakSymbol\<close>, the property under
  \<open>singletonSymbol\<close> stays once defined, and its entries stay.
\<close>

definition frame :: "graph \<Rightarrow> world \<Rightarrow> world \<Rightarrow> bool" where
  "frame g w w' \<longleftrightarrow>
     map_store w' = map_store w \<and>
     length (graph_store w') = length (graph_store w) \<and>
     (\<exists>new. objects w' = objects w @ new) \<and>
     (\<forall>k < length (graph_store w). k \<noteq> gid g \<longrightarrow> graph_store w' ! k = graph_store w ! k) \<and>
     (getOwnPropertyDescriptor w g weakSymbol = None \<longrightarrow>
        getOwnPropertyDescriptor w' g weakSymbol = None) \<and>
     (getOwnPropertyDescriptor w g singletonSymbol \<noteq> None \<longrightarrow>
        getOwnPropertyDescriptor w' g singletonSymbol \<noteq> None) \<and>
     (\<forall>i v. cache_get w g singletonSymbol i = Some v \<longrightarrow>
        cache_get w' g singletonSymbol i = Some v)"

definition framed :: "(graph \<Rightarrow> iface \<Rightarrow> val comp) \<Rightarrow> bool" where
  "framed res \<longleftrightarrow> (\<forall>g i w r w'. res g i w = Some (r, w') \<longrightarrow> frame g w w')"

section \<open>Sequences of operations\<close>

text \<open>
  A client's later calls on the public interface, each applied to the heap the previous one
  left. A resolution that throws leaves the heap it reached; one that does not return ends
  the sequence.
\<close>

datatype op =
    OpStart iface ctor "scope option"
  | OpAdd builder iface ctor "scope option"
  | OpBuild builder
  | OpModify graph
  | OpResolve nat graph iface

fun run_op :: "op \<Rightarrow> world \<Rightarrow> world option" where
  "run_op (OpStart impl c sc) w = Some (snd (start impl c sc w))"
| "run_op (OpAdd b impl c sc) w = Some (snd (add b impl c sc w))"
| "run_op (OpBuild b) w = Some (snd (build b w))"
| "run_op (OpModify g) w = Some w"
| "run_op (OpResolve n g i) w = map_option snd (resolve n g i w)"

fun run_ops :: "op list \<Rightarrow> world \<Rightarrow> world option" where
  "run_ops [] w = Some w"
| "run_ops (x # xs) w = (case run_op x w of None \<Rightarrow> None | Some w1 \<Rightarrow> run_ops xs w1)"

text \<open>
  \<open>extends w w'\<close>: every map of bindings of \<open>w\<close> is in \<open>w'\<close> with the same content,
  and every entry of a singleton cache of \<open>w\<close> is still there in \<open>w'\<close>.
\<close>

definition extends :: "world \<Rightarrow> world \<Rightarrow> bool" where
  "extends w w' \<longleftrightarrow>
     length (map_store w) \<le> length (map_store w') \<and>
     (\<forall>a < length (map_store w). map_at w' a = map_at w a) \<and>
     (\<forall>g i v. cache_get w g singletonSymbol i = Some v \<longrightarrow>
        cache_get w' g singletonSymbol i = Some v)"

section \<open>Heaps that programs can reach\<close>

text \<open>
  In a heap produced by the operations above, no graph has a property under
  \<open>weakSymbol\<close> (no code defines one), and every instance held in a singleton cache has
  been allocated.
\<close>

definition val_ok :: "nat \<Rightarrow> val \<Rightarrow> bool" where
  "val_ok n v = (case v of Inst k \<Rightarrow> k < n | SingletonFn \<Rightarrow> True)"

definition hidden_ok :: "nat \<Rightarrow> hidden \<Rightarrow> bool" where
  "hidden_ok n h \<longleftrightarrow>
     prop_weak h = None \<and>
     (case prop_singleton h of None \<Rightarrow> True | Some c \<Rightarrow> list_all (\<lambda>(i, v). val_ok n v) c)"

definition wf_world :: "world \<Rightarrow> bool" where
  "wf_world w = list_all (hidden_ok (length (objects w))) (graph_store w)"

definition sound :: "(graph \<Rightarrow> iface \<Rightarrow> val comp) \<Rightarrow> bool" where
  "sound res \<longleftrightarrow>
     (\<forall>g i w r w'. wf_world w \<longrightarrow> res g i w = Some (r, w') \<longrightarrow>
        wf_world w' \<and> (\<forall>v. r = Inr v \<longrightarrow> val_ok (length (objects w')) v))"

section \<open>Bindings whose dependencies are met\<close>

text \<open>
  \<open>deps_ok bs order\<close>: every interface of \<open>order\<close> is bound in \<open>bs\<close>, not through
  \<open>scopes.weak\<close>, to a constructor that needs only interfaces that come later in the
  list (the list is read from the last binding back to the first). Apart from the scope,
  this is what the return type of \<open>add\<close>,
  \<open>D extends P ? GraphBuilder<I | O> : never\<close>, is meant to guarantee at compile time.
\<close>

fun maker_ok :: "iface list \<Rightarrow> maker \<Rightarrow> bool" where
  "maker_ok earlier (NewEmpty c) = (needs c = [])"
| "maker_ok earlier (NewGraph c) = (set (needs c) \<subseteq> set earlier)"

fun deps_ok :: "bindings \<Rightarrow> iface list \<Rightarrow> bool" where
  "deps_ok bs [] = True"
| "deps_ok bs (i # earlier) =
     (deps_ok bs earlier \<and>
      (case map_of bs i of
         None \<Rightarrow> False
       | Some (sc, mk) \<Rightarrow> sc \<noteq> ScopeWeak \<and> maker_ok earlier mk))"

fun maker_ctor :: "maker \<Rightarrow> ctor" where
  "maker_ctor (NewEmpty c) = c"
| "maker_ctor (NewGraph c) = c"

section \<open>The coffee shop of packages/examples/coffee-shop.ts\<close>

text \<open>
  \<open>GraphBuilder.start(Heater, ElectricHeater).add(Pump, Thermosiphon)
  .add(CoffeeMaker, CoffeeMaker, scope).build()\<close> from the empty heap.
\<close>

definition Heater :: iface where "Heater = Interface 0 (Inr ''class Heater'')"

definition Pump :: iface where "Pump = Interface 1 (Inr ''class Pump'')"

definition CoffeeMaker :: iface where "CoffeeMaker = Interface 2 (Inr ''class CoffeeMaker'')"

text \<open>
  Tokens that are bound nowhere: another class, a class whose conversion to string throws
  (a static \<open>toString\<close> that returns an object, say), and a second class whose source
  text is that of the first.
\<close>

definition Grinder :: iface where "Grinder = Interface 7 (Inr ''class Grinder'')"

definition Opaque :: iface where "Opaque = Interface 8 (Inl TypeError)"

definition Grinder_twin :: iface where "Grinder_twin = Interface 9 (Inr ''class Grinder'')"

definition ElectricHeater :: ctor where "ElectricHeater = \<lparr>cls = 10, needs = []\<rparr>"

definition Thermosiphon :: ctor where "Thermosiphon = \<lparr>cls = 11, needs = [Heater]\<rparr>"

definition CoffeeMaker_class :: ctor where "CoffeeMaker_class = \<lparr>cls = 2, needs = [Pump]\<rparr>"

definition coffee_builder :: "scope option \<Rightarrow> builder \<times> world" where
  "coffee_builder sc =
     (let (b0, w0) = start Heater ElectricHeater None init_world;
          (b1, w1) = add b0 Pump Thermosiphon None w0
      in add b1 CoffeeMaker CoffeeMaker_class sc w1)"

definition coffee_graph :: "scope option \<Rightarrow> graph \<times> world" where
  "coffee_graph sc = build (fst (coffee_builder sc)) (snd (coffee_builder sc))"

text \<open>The library of the example binds \<open>CoffeeMaker\<close> as a singleton.\<close>

definition library :: "graph \<times> world" where
  "library = coffee_graph (Some ScopeSingleton)"

definition library_first :: world where
  "library_first = snd (the (resolve 3 (fst library) CoffeeMaker (snd library)))"

definition library_later :: world where
  "library_later =
     the (run_ops [OpResolve 3 (fst library) Pump, OpBuild (modify (fst library)),
                   OpResolve 3 (fst library) CoffeeMaker] library_first)"

text \<open>The same graph with \<open>CoffeeMaker\<close> bound through \<open>scopes.weak\<close>.\<close>

definition weak_shop :: "graph \<times> world" where
  "weak_shop = coffee_graph (Some ScopeWeak)"

definition weak_shop_first :: world where
  "weak_shop_first = snd (the (resolve 3 (fst weak_shop) CoffeeMaker (snd weak_shop)))"

text \<open>A builder with the heater only, and the coffee maker added to it without a pump.\<close>

definition heater_only :: "builder \<times> world" where
  "heater_only = start Heater ElectricHeater None init_world"

definition no_pump :: "builder \<times> world" where
  "no_pump = add (fst heater_only) CoffeeMaker CoffeeMaker_class None (snd heater_only)"

definition no_pump_graph :: "graph \<times> world" where
  "no_pump_graph = build (fst no_pump) (snd no_pump)"

text \<open>The heater and the pump; \<open>GasHeater\<close> is the other implementation of \<open>Heater\<close>.\<close>

definition GasHeater :: ctor where
  "GasHeater = \<lparr>cls = 12, needs = []\<rparr>"

definition with_pump :: "builder \<times> world" where
  "with_pump = add (fst heater_only) Pump Thermosiphon None (snd heater_only)"




definition pump_before :: "graph \<times> world" where
  "pump_before = build (fst heater_only) (snd with_pump)"

definition pump_after :: "graph \<times> world" where
  "pump_after = build (fst with_pump) (snd pump_before)"



definition pump_graph :: "graph \<times> world" where
  "pump_graph = build (fst with_pump) (snd with_pump)"

definition pump_later_ops :: "op list" where
  "pump_later_ops =
     [OpAdd (fst with_pump) CoffeeMaker CoffeeMaker_class None,
      OpAdd (fst with_pump) Heater GasHeater (Some ScopeSingleton),
      OpBuild (GraphBuilder 3),
      OpResolve 3 (fst pump_graph) Pump,
      OpAdd (modify (fst pump_graph)) Pump Thermosiphon (Some ScopeWeak)]"

definition pump_later :: world where
  "pump_later = the (run_ops pump_later_ops (snd pump_graph))"

definition weak_heater :: "graph \<times> world" where
  "weak_heater =
     (let (b0, w0) = start Heater ElectricHeater (Some ScopeWeak) init_world;
          (b1, w1) = add b0 Pump Thermosiphon None w0
      in build b1 w1)"

text \<open>
  The library with the pump forgotten, and the library with its heater bound through
  \<open>scopes.weak\<close>; in both \<open>CoffeeMaker\<close> is a singleton.
\<close>

definition no_pump_singleton :: "builder \<times> world" where
  "no_pump_singleton =
     add (fst heater_only) CoffeeMaker CoffeeMaker_class (Some ScopeSingleton) (snd heater_only)"

definition no_pump_library :: "graph \<times> world" where
  "no_pump_library = build (fst no_pump_singleton) (snd no_pump_singleton)"

definition no_pump_library_first :: world where
  "no_pump_library_first =
     snd (the (resolve 3 (fst no_pump_library) CoffeeMaker (snd no_pump_library)))"

definition weak_library :: "graph \<times> world" where
  "weak_library =
     (let (b0, w0) = start Heater ElectricHeater (Some ScopeWeak) init_world;
          (b1, w1) = add b0 Pump Thermosiphon None w0;
          (b2, w2) = add b1 CoffeeMaker CoffeeMaker_class (Some ScopeSingleton) w1
      in build b2 w2)"

definition weak_library_first :: world where
  "weak_library_first =
     snd (the (resolve 3 (fst weak_library) CoffeeMaker (snd weak_library)))"

section \<open>Properties of the heap operations\<close>

lemma gopd_set_prop:
  "getOwnPropertyDescriptor (set_prop g s c w) g' s' =
     (if gid g' = gid g \<and> gid g < length (graph_store w) \<and> s' = s then Some c
      else getOwnPropertyDescriptor w g' s')"
  by (cases s; cases s'; cases "gid g' = gid g")
     (auto simp: getOwnPropertyDescriptor_def set_prop_def nth_list_update)

lemma set_prop_fields [simp]:
  "map_store (set_prop g s c w) = map_store w"
  "objects (set_prop g s c w) = objects w"
  "length (graph_store (set_prop g s c w)) = length (graph_store w)"
  by (simp_all add: set_prop_def)

lemma set_prop_others:
  "k \<noteq> gid g \<Longrightarrow> graph_store (set_prop g s c w) ! k = graph_store w ! k"
  by (simp add: set_prop_def)

lemma gopd_objects [simp]:
  "getOwnPropertyDescriptor (w\<lparr>objects := xs\<rparr>) g s = getOwnPropertyDescriptor w g s"
  by (cases s) (simp_all add: getOwnPropertyDescriptor_def)

lemma gopd_bound:
  "getOwnPropertyDescriptor w g s = Some c \<Longrightarrow> gid g < length (graph_store w)"
  by (simp add: getOwnPropertyDescriptor_def split: if_splits)

lemma gopd_gid:
  "gid g' = gid g \<Longrightarrow> getOwnPropertyDescriptor w g' s = getOwnPropertyDescriptor w g s"
  by (cases s) (simp_all add: getOwnPropertyDescriptor_def)

lemma cache_get_objects [simp]:
  "cache_get (w\<lparr>objects := xs\<rparr>) g s i = cache_get w g s i"
  by (simp add: cache_get_def)

lemma cache_set_fields [simp]:
  "map_store (cache_set g s i v w) = map_store w"
  "objects (cache_set g s i v w) = objects w"
  "length (graph_store (cache_set g s i v w)) = length (graph_store w)"
  by (simp_all add: cache_set_def split: option.splits)

lemma cache_set_others:
  "k \<noteq> gid g \<Longrightarrow> graph_store (cache_set g s i v w) ! k = graph_store w ! k"
  by (simp add: cache_set_def set_prop_others split: option.splits)

lemma gopd_cache_set:
  "getOwnPropertyDescriptor (cache_set g s i v w) g' s' =
     (if gid g' = gid g \<and> s' = s
      then map_option (AList.update i v) (getOwnPropertyDescriptor w g s)
      else getOwnPropertyDescriptor w g' s')"
  by (cases "gid g' = gid g")
     (auto simp: cache_set_def gopd_set_prop gopd_gid [of g' g]
        dest: gopd_bound split: option.splits)

lemma cache_get_cache_set:
  "cache_get (cache_set g s i v w) g' s' j =
     (if gid g' = gid g \<and> s' = s
      then (if getOwnPropertyDescriptor w g s = None then None
            else if j = i then Some v else cache_get w g s j)
      else cache_get w g' s' j)"
  by (cases "gid g' = gid g")
     (auto simp: cache_get_def gopd_cache_set update_conv' gopd_gid [of g' g]
        split: option.splits)

lemma cache_set_same:
  "cache_get w g s i = Some v \<Longrightarrow> cache_set g s i v w = w"
  by (cases s)
     (auto simp: cache_get_def cache_set_def set_prop_def getOwnPropertyDescriptor_def
        update_triv list_update_same_conv split: option.splits if_splits)

subsection \<open>The frame of a resolution\<close>

lemma frame_refl: "frame g w w"
  by (simp add: frame_def)

lemma frame_trans: "frame g w w1 \<Longrightarrow> frame g w1 w2 \<Longrightarrow> frame g w w2"
  unfolding frame_def by (elim conjE exE) (intro conjI; simp)

lemma frame_alloc: "frame g w (w\<lparr>objects := objects w @ xs\<rparr>)"
  by (simp add: frame_def)

lemma frame_define:
  "getOwnPropertyDescriptor w g singletonSymbol = None \<Longrightarrow>
   frame g w (set_prop g singletonSymbol c w)"
  by (simp add: frame_def gopd_set_prop set_prop_others cache_get_def)

lemma ctor_body_frame:
  assumes "framed res"
  shows "ctor_body res garg ds w = Some (r, w') \<Longrightarrow> garg = Some g \<or> garg = None \<Longrightarrow> frame g w w'"
proof (induction ds arbitrary: w)
  case Nil
  then show ?case by (simp add: frame_refl)
next
  case (Cons d ds)
  show ?case
  proof (cases garg)
    case None
    with Cons.prems show ?thesis by (simp add: frame_refl)
  next
    case (Some g')
    with Cons.prems have g': "g' = g" by simp
    from Cons.prems Some g' obtain r1 w1 where
      step: "res g d w = Some (r1, w1)"
      by (auto split: option.splits)
    from assms step have f1: "frame g w w1" by (auto simp: framed_def)
    show ?thesis
    proof (cases r1)
      case (Inl e)
      with Cons.prems Some g' step have "w' = w1" by simp
      with f1 show ?thesis by simp
    next
      case (Inr v)
      with Cons.prems Some g' step have "ctor_body res garg ds w1 = Some (r, w')" by simp
      from Cons.IH [OF this Cons.prems(2)] f1 show ?thesis by (rule frame_trans [rotated])
    qed
  qed
qed

lemma new_ctor_frame:
  assumes "framed res" and "new_ctor res c garg w = Some (r, w')"
    and "garg = Some g \<or> garg = None"
  shows "frame g w w'"
proof -
  let ?w1 = "w\<lparr>objects := objects w @ [cls c]\<rparr>"
  from assms(2) obtain r2 where "ctor_body res garg (needs c) ?w1 = Some (r2, w')"
    by (auto simp: new_ctor_def Let_def split: option.splits sum.splits)
  from ctor_body_frame [OF assms(1) this assms(3)] have "frame g ?w1 w'" .
  with frame_alloc [of g w "[cls c]"] show ?thesis by (rule frame_trans)
qed

lemma run_maker_frame:
  "framed res \<Longrightarrow> run_maker res mk g w = Some (r, w') \<Longrightarrow> frame g w w'"
  by (cases mk) (auto intro: new_ctor_frame)

lemma none_frame:
  "(\<And>w r w'. maker g w = Some (r, w') \<Longrightarrow> frame g w w') \<Longrightarrow>
   none maker g i w = Some (r, w') \<Longrightarrow> frame g w w'"
  by (simp add: none_def)

lemma cache_get_undefined:
  "getOwnPropertyDescriptor w g s = None \<Longrightarrow> cache_get w g s i = None"
  by (simp add: cache_get_def)

lemma frame_cache_set:
  assumes "frame g w w2" and "cache_get w g singletonSymbol i = None"
  shows "frame g w (cache_set g singletonSymbol i v w2)"
  using assms unfolding frame_def
  by (auto simp: gopd_cache_set cache_get_cache_set cache_set_others cache_get_undefined)

lemma frame_cache_set_weak:
  assumes "frame g w w2" and "getOwnPropertyDescriptor w g weakSymbol \<noteq> None"
  shows "frame g w (cache_set g weakSymbol i v w2)"
  using assms unfolding frame_def
  by (auto simp: gopd_cache_set cache_get_cache_set cache_set_others cache_get_undefined)

lemma singleton_cases:
  assumes "singleton maker g i w = Some (r, w')"
  obtains
    (cached) v where "cache_get (installed g w) g singletonSymbol i = Some v"
      and "r = Inr v" and "w' = installed g w"
  | (threw) e where "cache_get (installed g w) g singletonSymbol i = None"
      and "maker g (installed g w) = Some (Inl e, w')" and "r = Inl e"
  | (made) v w2 where "cache_get (installed g w) g singletonSymbol i = None"
      and "maker g (installed g w) = Some (Inr v, w2)" and "r = Inr v"
      and "w' = cache_set g singletonSymbol i v w2"
  using assms
  by (cases "getOwnPropertyDescriptor w g singletonSymbol")
     (auto simp: singleton_def installed_def defineProperty_def cache_set_same
        split: option.splits sum.splits)

lemma weak_cases:
  assumes "weak maker g i w = Some (r, w')"
  obtains
    (redefined) "getOwnPropertyDescriptor w g weakSymbol = None"
      and "getOwnPropertyDescriptor w g singletonSymbol \<noteq> None"
      and "r = Inl TypeError" and "w' = w"
  | (threw) e where "getOwnPropertyDescriptor w g weakSymbol = None"
      and "getOwnPropertyDescriptor w g singletonSymbol = None"
      and "maker g (installed g w) = Some (Inl e, w')" and "r = Inl e"
  | (made) v w2 where "getOwnPropertyDescriptor w g weakSymbol = None"
      and "getOwnPropertyDescriptor w g singletonSymbol = None"
      and "maker g (installed g w) = Some (Inr v, w2)" and "r = Inr v"
      and "w' = cache_set g singletonSymbol i SingletonFn w2"
  | (own_threw) e where "getOwnPropertyDescriptor w g weakSymbol \<noteq> None"
      and "(case cache_get w g weakSymbol i of
              Some v \<Rightarrow> Some (Inr v, w) | None \<Rightarrow> maker g w) = Some (Inl e, w')"
      and "r = Inl e"
  | (own_made) v w2 where "getOwnPropertyDescriptor w g weakSymbol \<noteq> None"
      and "(case cache_get w g weakSymbol i of
              Some v \<Rightarrow> Some (Inr v, w) | None \<Rightarrow> maker g w) = Some (Inr v, w2)"
      and "r = Inr v" and "w' = cache_set g weakSymbol i SingletonFn w2"
proof (cases "getOwnPropertyDescriptor w g weakSymbol")
  case None
  show ?thesis
  proof (cases "getOwnPropertyDescriptor w g singletonSymbol")
    case undefined: None
    have empty: "cache_get (installed g w) g singletonSymbol i = None"
      using undefined by (simp add: installed_def cache_get_def gopd_set_prop)
    have run: "(case maker g (installed g w) of
             None \<Rightarrow> None
           | Some (Inl e, w2) \<Rightarrow> Some (Inl e, w2)
           | Some (Inr value, w2) \<Rightarrow>
               Some (Inr value, cache_set g singletonSymbol i SingletonFn w2)) = Some (r, w')"
      using assms None undefined empty
      by (simp add: weak_def installed_def defineProperty_def)
    then obtain r2 w2 where m: "maker g (installed g w) = Some (r2, w2)"
      by (auto split: option.splits)
    show ?thesis
    proof (cases r2)
      case (Inl e)
      with run m have "r = Inl e" "w' = w2" by simp_all
      with m Inl None undefined show ?thesis by (intro that(2) [of e]) simp_all
    next
      case (Inr v)
      with run m have "r = Inr v" "w' = cache_set g singletonSymbol i SingletonFn w2"
        by simp_all
      with m Inr None undefined show ?thesis by (intro that(3) [of v w2]) simp_all
    qed
  next
    case (Some c)
    with assms None have "r = Inl TypeError" "w' = w"
      by (simp_all add: weak_def defineProperty_def)
    with None Some show ?thesis by (intro that(1)) simp_all
  qed
next
  case (Some c)
  then have run: "(case (case cache_get w g weakSymbol i of
                   Some v \<Rightarrow> Some (Inr v, w)
                 | None \<Rightarrow> maker g w) of
             None \<Rightarrow> None
           | Some (Inl e, w2) \<Rightarrow> Some (Inl e, w2)
           | Some (Inr value, w2) \<Rightarrow>
               Some (Inr value, cache_set g weakSymbol i SingletonFn w2)) = Some (r, w')"
    using assms by (simp add: weak_def)
  then obtain r2 w2 where
    m: "(case cache_get w g weakSymbol i of Some v \<Rightarrow> Some (Inr v, w) | None \<Rightarrow> maker g w)
          = Some (r2, w2)"
    by (auto split: option.splits)
  show ?thesis
  proof (cases r2)
    case (Inl e)
    with run m have "r = Inl e" "w' = w2" by simp_all
    with m Inl Some show ?thesis by (intro that(4) [of e]) simp_all
  next
    case (Inr v)
    with run m have "r = Inr v" "w' = cache_set g weakSymbol i SingletonFn w2" by simp_all
    with m Inr Some show ?thesis by (intro that(5) [of v w2]) simp_all
  qed
qed

lemma frame_installed: "frame g w (installed g w)"
  by (simp add: installed_def frame_refl frame_define)

lemma singleton_frame:
  assumes mk: "\<And>w r w'. maker g w = Some (r, w') \<Longrightarrow> frame g w w'"
    and run: "singleton maker g i w = Some (r, w')"
  shows "frame g w w'"
  using run
proof (cases rule: singleton_cases)
  case (cached v)
  then show ?thesis by (simp add: frame_installed)
next
  case (threw e)
  from frame_installed mk [OF threw(2)] show ?thesis by (rule frame_trans)
next
  case (made v w2)
  from frame_installed mk [OF made(2)] have f2: "frame g w w2" by (rule frame_trans)
  have "cache_get w g singletonSymbol i = None"
    using made(1) frame_installed [of g w] unfolding frame_def
    by (cases "cache_get w g singletonSymbol i") auto
  with f2 made(4) show ?thesis by (simp add: frame_cache_set)
qed

lemma weak_frame:
  assumes mk: "\<And>w r w'. maker g w = Some (r, w') \<Longrightarrow> frame g w w'"
    and run: "weak maker g i w = Some (r, w')"
  shows "frame g w w'"
  using run
proof (cases rule: weak_cases)
  case redefined
  then show ?thesis by (simp add: frame_refl)
next
  case (threw e)
  from frame_installed mk [OF threw(3)] show ?thesis by (rule frame_trans)
next
  case (made v w2)
  from frame_installed mk [OF made(3)] have "frame g w w2" by (rule frame_trans)
  with made show ?thesis by (simp add: frame_cache_set cache_get_undefined)
next
  case (own_threw e)
  then show ?thesis using mk by (auto simp: frame_refl split: option.splits)
next
  case (own_made v w2)
  then have "frame g w w2" using mk by (auto simp: frame_refl split: option.splits)
  with own_made show ?thesis by (simp add: frame_cache_set_weak)
qed

lemma resolve_framed: "framed (resolve n)"
proof (induction n)
  case 0
  show ?case by (auto simp: framed_def frame_refl split: option.splits)
next
  case (Suc n)
  show ?case
    unfolding framed_def
  proof (intro allI impI)
    fix g i w r w'
    assume run: "resolve (Suc n) g i w = Some (r, w')"
    show "frame g w w'"
    proof (cases "provider_of w g i")
      case None
      with run show ?thesis by (simp add: frame_refl)
    next
      case (Some p)
      obtain sc mk where p: "p = (sc, mk)" by (cases p)
      from run Some p have a: "apply_scope sc (run_maker (resolve n) mk) g i w = Some (r, w')"
        by simp
      have mk: "\<And>w r w'. run_maker (resolve n) mk g w = Some (r, w') \<Longrightarrow> frame g w w'"
        using Suc by (rule run_maker_frame)
      from a mk show ?thesis
        by (cases sc) (auto intro: none_frame singleton_frame weak_frame)
    qed
  qed
qed

lemma resolve_frame: "resolve n g i w = Some (r, w') \<Longrightarrow> frame g w w'"
  using resolve_framed [of n] by (auto simp: framed_def)

subsection \<open>The builder operations, and what every operation keeps\<close>

lemma start_eq:
  "start impl c sc w =
     (GraphBuilder (length (map_store w)),
      w\<lparr>map_store := map_store w @ [[(impl, scope_or_default sc, NewEmpty c)]]\<rparr>)"
  by (simp add: start_def new_Map_def map_set_def map_at_def)

lemma add_eq:
  "add b impl c sc w =
     (GraphBuilder (length (map_store w)),
      w\<lparr>map_store := map_store w @
          [AList.update impl (scope_or_default sc, NewGraph c) (map_at w (bmap b))]\<rparr>)"
  by (simp add: add_def new_Map_def map_set_def map_at_def)

lemma build_eq:
  "build b w =
     (Graph (length (graph_store w)) (length (map_store w)),
      w\<lparr>map_store := map_store w @ [map_at w (bmap b)],
        graph_store := graph_store w @ [\<lparr>prop_singleton = None, prop_weak = None\<rparr>]\<rparr>)"
  by (simp add: build_def new_Graph_def new_Map_def)

lemma map_at_append:
  "map_store w' = map_store w @ ms \<Longrightarrow> a < length (map_store w) \<Longrightarrow> map_at w' a = map_at w a"
  by (simp add: map_at_def nth_append)

lemma map_at_new:
  "map_at (w\<lparr>map_store := map_store w @ [m]\<rparr>) (length (map_store w)) = m"
  by (simp add: map_at_def)

lemma map_at_graph_store [simp]:
  "map_at (w\<lparr>graph_store := gs\<rparr>) a = map_at w a"
  by (simp add: map_at_def)

lemma gopd_map_store [simp]:
  "getOwnPropertyDescriptor (w\<lparr>map_store := ms\<rparr>) g s = getOwnPropertyDescriptor w g s"
  by (cases s) (simp_all add: getOwnPropertyDescriptor_def)

lemma gopd_graph_append:
  "graph_store w' = graph_store w @ hs \<Longrightarrow> getOwnPropertyDescriptor w g s = Some c \<Longrightarrow>
   getOwnPropertyDescriptor w' g s = Some c"
  by (cases s) (auto simp: getOwnPropertyDescriptor_def nth_append split: if_splits)

lemma extends_refl: "extends w w"
  by (simp add: extends_def)

lemma extends_trans: "extends w w1 \<Longrightarrow> extends w1 w2 \<Longrightarrow> extends w w2"
  unfolding extends_def by (elim conjE) (intro conjI; simp)

lemma cache_get_same_store:
  assumes "length (graph_store w') = length (graph_store w)"
    and "graph_store w' ! gid g = graph_store w ! gid g"
  shows "cache_get w' g s i = cache_get w g s i"
  using assms by (cases s) (simp_all add: cache_get_def getOwnPropertyDescriptor_def)

lemma cache_get_gid:
  "gid g' = gid g \<Longrightarrow> cache_get w g' s i = cache_get w g s i"
  by (simp add: cache_get_def gopd_gid [of g' g])

lemma cache_get_bound:
  "cache_get w g s i = Some v \<Longrightarrow> gid g < length (graph_store w)"
  by (auto simp: cache_get_def dest: gopd_bound split: option.splits)

lemma frame_map_store: "frame g w w' \<Longrightarrow> map_store w' = map_store w"
  by (simp add: frame_def)

lemma frame_length: "frame g w w' \<Longrightarrow> length (graph_store w') = length (graph_store w)"
  by (simp add: frame_def)

lemma frame_objects: "frame g w w' \<Longrightarrow> \<exists>new. objects w' = objects w @ new"
  by (simp add: frame_def)

lemma frame_others:
  "frame g w w' \<Longrightarrow> k < length (graph_store w) \<Longrightarrow> k \<noteq> gid g \<Longrightarrow>
   graph_store w' ! k = graph_store w ! k"
  by (simp add: frame_def)

lemma frame_weak:
  "frame g w w' \<Longrightarrow> getOwnPropertyDescriptor w g weakSymbol = None \<Longrightarrow>
   getOwnPropertyDescriptor w' g weakSymbol = None"
  by (simp add: frame_def)

lemma frame_defined:
  "frame g w w' \<Longrightarrow> getOwnPropertyDescriptor w g singletonSymbol \<noteq> None \<Longrightarrow>
   getOwnPropertyDescriptor w' g singletonSymbol \<noteq> None"
  by (simp add: frame_def)

lemma frame_cached:
  "frame g w w' \<Longrightarrow> cache_get w g singletonSymbol i = Some v \<Longrightarrow>
   cache_get w' g singletonSymbol i = Some v"
  by (simp add: frame_def)

lemma frame_extends:
  assumes "frame g' w w'"
  shows "extends w w'"
  unfolding extends_def
proof (intro conjI allI impI)
  from assms show "length (map_store w) \<le> length (map_store w')"
    by (simp add: frame_map_store)
  fix a
  from assms show "map_at w' a = map_at w a" by (simp add: frame_map_store map_at_def)
next
  fix g i v
  assume c: "cache_get w g singletonSymbol i = Some v"
  show "cache_get w' g singletonSymbol i = Some v"
  proof (cases "gid g = gid g'")
    case True
    with c have "cache_get w g' singletonSymbol i = Some v"
      by (simp add: cache_get_gid [of g g'])
    with assms have "cache_get w' g' singletonSymbol i = Some v" by (rule frame_cached)
    with True show ?thesis by (simp add: cache_get_gid [of g g'])
  next
    case False
    from c have "gid g < length (graph_store w)" by (rule cache_get_bound)
    with False assms have "graph_store w' ! gid g = graph_store w ! gid g"
      by (simp add: frame_others)
    with frame_length [OF assms]
    have "cache_get w' g singletonSymbol i = cache_get w g singletonSymbol i"
      by (rule cache_get_same_store)
    with c show ?thesis by simp
  qed
qed

lemma cache_get_graph_append:
  "graph_store w' = graph_store w @ hs \<Longrightarrow> cache_get w g s i = Some v \<Longrightarrow>
   cache_get w' g s i = Some v"
  by (auto simp: cache_get_def dest: gopd_graph_append split: option.splits)

lemma extends_heap_grows:
  assumes "map_store w' = map_store w @ ms" and "graph_store w' = graph_store w @ hs"
  shows "extends w w'"
  unfolding extends_def
proof (intro conjI allI impI)
  from assms(1) show "length (map_store w) \<le> length (map_store w')" by simp
  fix a assume "a < length (map_store w)"
  with assms(1) show "map_at w' a = map_at w a" by (rule map_at_append)
next
  fix g i v
  assume "cache_get w g singletonSymbol i = Some v"
  with assms(2) show "cache_get w' g singletonSymbol i = Some v"
    by (rule cache_get_graph_append)
qed

lemma start_extends: "extends w (snd (start impl c sc w))"
  by (rule extends_heap_grows [where hs = "[]"]) (simp_all add: start_eq)

lemma add_extends: "extends w (snd (add b impl c sc w))"
  by (rule extends_heap_grows [where hs = "[]"]) (simp_all add: add_eq)

lemma build_extends: "extends w (snd (build b w))"
  by (rule extends_heap_grows) (simp_all add: build_eq)

lemma run_op_extends:
  assumes "run_op x w = Some w'"
  shows "extends w w'"
proof (cases x)
  case (OpStart impl c sc)
  with assms show ?thesis using start_extends [of w impl c sc] by simp
next
  case (OpAdd b impl c sc)
  with assms show ?thesis using add_extends [of w b impl c sc] by simp
next
  case (OpBuild b)
  with assms show ?thesis using build_extends [of w b] by simp
next
  case (OpModify g)
  with assms show ?thesis by (simp add: extends_refl)
next
  case (OpResolve n g i)
  with assms obtain r where "resolve n g i w = Some (r, w')" by auto
  then show ?thesis by (blast dest: resolve_frame frame_extends)
qed

lemma run_ops_extends: "run_ops xs w = Some w' \<Longrightarrow> extends w w'"
proof (induction xs arbitrary: w)
  case Nil
  then show ?case by (simp add: extends_refl)
next
  case (Cons x xs)
  then obtain w1 where "run_op x w = Some w1" and "run_ops xs w1 = Some w'"
    by (auto split: option.splits)
  with Cons.IH show ?case by (blast intro: extends_trans run_op_extends)
qed

lemma provider_of_bound:
  "provider_of w g i = Some p \<Longrightarrow> gmap g < length (map_store w)"
  by (simp add: provider_of_def map_at_def split: if_splits)

lemma extends_provider_of:
  "extends w w' \<Longrightarrow> provider_of w g i = Some p \<Longrightarrow> provider_of w' g i = Some p"
  by (frule provider_of_bound) (simp add: extends_def provider_of_def)

subsection \<open>What the singleton and weak scopes leave on the graph\<close>

lemma gopd_installed:
  "gid g < length (graph_store w) \<Longrightarrow>
   getOwnPropertyDescriptor (installed g w) g singletonSymbol \<noteq> None"
  by (simp add: installed_def gopd_set_prop)

lemma gopd_installed_weak:
  "getOwnPropertyDescriptor (installed g w) g weakSymbol = getOwnPropertyDescriptor w g weakSymbol"
  by (simp add: installed_def gopd_set_prop)

lemma installed_fields [simp]:
  "objects (installed g w) = objects w"
  "map_store (installed g w) = map_store w"
  "length (graph_store (installed g w)) = length (graph_store w)"
  by (simp_all add: installed_def)

lemma singleton_cached:
  assumes "cache_get w g singletonSymbol i = Some v"
  shows "singleton maker g i w = Some (Inr v, w)"
proof -
  from assms have "getOwnPropertyDescriptor w g singletonSymbol \<noteq> None"
    by (auto simp: cache_get_def split: option.splits)
  with assms show ?thesis by (auto simp: singleton_def cache_set_same)
qed

lemma singleton_caches:
  assumes valid: "gid g < length (graph_store w)"
    and mk: "\<And>w r w'. maker g w = Some (r, w') \<Longrightarrow> frame g w w'"
    and run: "singleton maker g i w = Some (Inr v, w')"
  shows "cache_get w' g singletonSymbol i = Some v"
  using run
proof (cases rule: singleton_cases)
  case (cached u)
  then show ?thesis by simp
next
  case (threw e)
  then show ?thesis by simp
next
  case (made u w2)
  from mk [OF made(2)] gopd_installed [OF valid]
  have "getOwnPropertyDescriptor w2 g singletonSymbol \<noteq> None" by (simp add: frame_def)
  with made show ?thesis by (simp add: cache_get_cache_set)
qed

lemma new_ctor_result:
  "new_ctor res c garg w = Some (Inr v, w') \<Longrightarrow> v = Inst (length (objects w))"
  by (auto simp: new_ctor_def Let_def split: option.splits sum.splits)

lemma run_maker_result:
  "run_maker res mk g w = Some (Inr v, w') \<Longrightarrow> v = Inst (length (objects w))"
  by (cases mk) (auto dest: new_ctor_result)

lemma weak_after_defined:
  assumes "getOwnPropertyDescriptor w g weakSymbol = None"
    and "getOwnPropertyDescriptor w g singletonSymbol \<noteq> None"
  shows "weak maker g i w = Some (Inl TypeError, w)"
  using assms by (auto simp: weak_def defineProperty_def)

lemma singleton_defines:
  assumes valid: "gid g < length (graph_store w)"
    and mk: "\<And>w r w'. maker g w = Some (r, w') \<Longrightarrow> frame g w w'"
    and run: "singleton maker g i w = Some (r, w')"
  shows "getOwnPropertyDescriptor w' g singletonSymbol \<noteq> None"
  using run
proof (cases rule: singleton_cases)
  case (cached v)
  with valid show ?thesis by (simp add: gopd_installed)
next
  case (threw e)
  from mk [OF threw(2)] gopd_installed [OF valid] show ?thesis by (rule frame_defined)
next
  case (made v w2)
  from mk [OF made(2)] gopd_installed [OF valid]
  have "getOwnPropertyDescriptor w2 g singletonSymbol \<noteq> None" by (rule frame_defined)
  with made show ?thesis by (simp add: gopd_cache_set)
qed

lemma weak_defines:
  assumes valid: "gid g < length (graph_store w)"
    and mk: "\<And>w r w'. maker g w = Some (r, w') \<Longrightarrow> frame g w w'"
    and weak0: "getOwnPropertyDescriptor w g weakSymbol = None"
    and run: "weak maker g i w = Some (r, w')"
  shows "getOwnPropertyDescriptor w' g singletonSymbol \<noteq> None"
  using run
proof (cases rule: weak_cases)
  case redefined
  then show ?thesis by simp
next
  case (threw e)
  from mk [OF threw(3)] gopd_installed [OF valid] show ?thesis by (rule frame_defined)
next
  case (made v w2)
  from mk [OF made(3)] gopd_installed [OF valid]
  have "getOwnPropertyDescriptor w2 g singletonSymbol \<noteq> None" by (rule frame_defined)
  with made show ?thesis by (simp add: gopd_cache_set)
next
  case (own_threw e)
  with weak0 show ?thesis by simp
next
  case (own_made v w2)
  with weak0 show ?thesis by simp
qed

lemma provider_of_build:
  "provider_of (snd (build b w)) (fst (build b w)) = map_of (map_at w (bmap b))"
  by (rule ext) (simp add: build_eq provider_of_def map_at_def)

lemma map_at_build:
  "a < length (map_store w) \<Longrightarrow> map_at (snd (build b w)) a = map_at w a"
  by (simp add: build_eq map_at_def nth_append)

lemma map_at_add_old:
  "a < length (map_store w) \<Longrightarrow> map_at (snd (add b impl c sc w)) a = map_at w a"
  by (simp add: add_eq map_at_def nth_append)

lemma map_at_add_new:
  "map_at (snd (add b impl c sc w)) (bmap (fst (add b impl c sc w))) =
     AList.update impl (scope_or_default sc, NewGraph c) (map_at w (bmap b))"
  by (simp add: add_eq map_at_def)

lemma map_of_add_new:
  "map_of (map_at (snd (add b impl c sc w)) (bmap (fst (add b impl c sc w)))) =
     (map_of (map_at w (bmap b)))(impl \<mapsto> (scope_or_default sc, NewGraph c))"
  by (simp add: map_at_add_new update_conv')

lemma new_ctor_unmet:
  assumes "needs c = j # rest" and "provider_of (w\<lparr>objects := objects w @ [cls c]\<rparr>) g j = None"
  shows "new_ctor (resolve n) c (Some g) w =
           Some (Inl (unsatisfied j), w\<lparr>objects := objects w @ [cls c]\<rparr>)"
  using assms by (cases n) (simp_all add: new_ctor_def Let_def)

lemma provider_of_objects [simp]:
  "provider_of (w\<lparr>objects := xs\<rparr>) g i = provider_of w g i"
  by (simp add: provider_of_def map_at_def)

subsection \<open>Reachable heaps stay reachable\<close>

lemma val_ok_mono: "n \<le> m \<Longrightarrow> val_ok n v \<Longrightarrow> val_ok m v"
  by (cases v) (simp_all add: val_ok_def)

lemma hidden_ok_mono: "n \<le> m \<Longrightarrow> hidden_ok n h \<Longrightarrow> hidden_ok m h"
  by (auto simp: hidden_ok_def list_all_iff split: option.splits dest: val_ok_mono)

lemma wf_alloc: "wf_world w \<Longrightarrow> wf_world (w\<lparr>objects := objects w @ xs\<rparr>)"
  by (auto simp: wf_world_def list_all_iff intro: hidden_ok_mono [rotated])

lemma wf_hidden:
  "wf_world w \<Longrightarrow> k < length (graph_store w) \<Longrightarrow>
   hidden_ok (length (objects w)) (graph_store w ! k)"
  by (simp add: wf_world_def list_all_length)

lemma wf_weak: "wf_world w \<Longrightarrow> getOwnPropertyDescriptor w g weakSymbol = None"
  by (auto simp: getOwnPropertyDescriptor_def hidden_ok_def dest: wf_hidden)

lemma wf_cache:
  "wf_world w \<Longrightarrow> getOwnPropertyDescriptor w g singletonSymbol = Some c \<Longrightarrow>
   list_all (\<lambda>(i, v). val_ok (length (objects w)) v) c"
  by (auto simp: getOwnPropertyDescriptor_def hidden_ok_def dest: wf_hidden split: if_splits)

lemma wf_cached:
  assumes "wf_world w" and "cache_get w g singletonSymbol i = Some v"
  shows "val_ok (length (objects w)) v"
proof -
  from assms(2) obtain c where c: "getOwnPropertyDescriptor w g singletonSymbol = Some c"
    and "map_of c i = Some v"
    by (auto simp: cache_get_def split: option.splits)
  then have "(i, v) \<in> set c" by (auto dest: map_of_SomeD)
  with wf_cache [OF assms(1) c] show ?thesis by (auto simp: list_all_iff)
qed

lemma wf_set_prop:
  assumes "wf_world w" and "list_all (\<lambda>(i, v). val_ok (length (objects w)) v) c"
  shows "wf_world (set_prop g singletonSymbol c w)"
  unfolding wf_world_def list_all_length
proof (intro allI impI)
  fix k
  assume "k < length (graph_store (set_prop g singletonSymbol c w))"
  then have k: "k < length (graph_store w)" by simp
  with assms(1) have h: "hidden_ok (length (objects w)) (graph_store w ! k)" by (rule wf_hidden)
  show "hidden_ok (length (objects (set_prop g singletonSymbol c w)))
          (graph_store (set_prop g singletonSymbol c w) ! k)"
  proof (cases "k = gid g")
    case True
    with k h assms(2) show ?thesis by (simp add: set_prop_def hidden_ok_def)
  next
    case False
    with h show ?thesis by (simp add: set_prop_others)
  qed
qed

lemma wf_installed: "wf_world w \<Longrightarrow> wf_world (installed g w)"
  by (simp add: installed_def wf_set_prop)

lemma list_all_update:
  "list_all P c \<Longrightarrow> P (i, v) \<Longrightarrow> list_all P (AList.update i v c)"
  by (induction c) auto

lemma wf_cache_set:
  assumes "wf_world w" and "val_ok (length (objects w)) v"
  shows "wf_world (cache_set g singletonSymbol i v w)"
proof (cases "getOwnPropertyDescriptor w g singletonSymbol")
  case None
  with assms show ?thesis by (simp add: cache_set_def)
next
  case (Some c)
  with assms(1) have "list_all (\<lambda>(i, v). val_ok (length (objects w)) v) c"
    by (rule wf_cache)
  with assms(2) have "list_all (\<lambda>(i, v). val_ok (length (objects w)) v) (AList.update i v c)"
    by (simp add: list_all_update)
  with assms(1) Some show ?thesis by (simp add: cache_set_def wf_set_prop)
qed

lemma ctor_body_sound:
  assumes "sound res"
  shows "wf_world w \<Longrightarrow> ctor_body res garg ds w = Some (r, w') \<Longrightarrow> wf_world w'"
proof (induction ds arbitrary: w)
  case Nil
  then show ?case by simp
next
  case (Cons d ds)
  show ?case
  proof (cases garg)
    case None
    with Cons.prems show ?thesis by simp
  next
    case (Some g)
    with Cons.prems obtain r1 w1 where step: "res g d w = Some (r1, w1)"
      by (auto split: option.splits)
    with assms Cons.prems(1) have wf1: "wf_world w1" by (auto simp: sound_def)
    show ?thesis
    proof (cases r1)
      case (Inl e)
      with Cons.prems Some step wf1 show ?thesis by simp
    next
      case (Inr v)
      with Cons.prems Some step have "ctor_body res garg ds w1 = Some (r, w')" by simp
      with wf1 show ?thesis by (rule Cons.IH)
    qed
  qed
qed

lemma new_ctor_sound:
  assumes "sound res" and "framed res" and "wf_world w"
    and run: "new_ctor res c garg w = Some (r, w')"
  shows "wf_world w' \<and> (\<forall>v. r = Inr v \<longrightarrow> val_ok (length (objects w')) v)"
proof -
  let ?w1 = "w\<lparr>objects := objects w @ [cls c]\<rparr>"
  from run obtain r2 where body: "ctor_body res garg (needs c) ?w1 = Some (r2, w')"
    by (auto simp: new_ctor_def Let_def split: option.splits sum.splits)
  from assms(3) have "wf_world ?w1" by (rule wf_alloc)
  with assms(1) have wf': "wf_world w'" using body by (rule ctor_body_sound)
  obtain g where "garg = Some g \<or> garg = None" by (cases garg) auto
  with assms(2) body have "frame g ?w1 w'" by (rule ctor_body_frame)
  then have "length (objects w) < length (objects w')"
    by (auto dest: frame_objects)
  moreover have "v = Inst (length (objects w))" if "r = Inr v" for v
    using run that by (auto dest: new_ctor_result)
  ultimately show ?thesis using wf' by (auto simp: val_ok_def)
qed

lemma run_maker_sound:
  assumes "sound res" and "framed res" and "wf_world w"
    and "run_maker res mk g w = Some (r, w')"
  shows "wf_world w' \<and> (\<forall>v. r = Inr v \<longrightarrow> val_ok (length (objects w')) v)"
  using assms by (cases mk) (auto dest: new_ctor_sound)

lemma singleton_sound:
  assumes mk: "\<And>w r w'. wf_world w \<Longrightarrow> maker g w = Some (r, w') \<Longrightarrow>
                 wf_world w' \<and> (\<forall>v. r = Inr v \<longrightarrow> val_ok (length (objects w')) v)"
    and wf: "wf_world w"
    and run: "singleton maker g i w = Some (r, w')"
  shows "wf_world w' \<and> (\<forall>v. r = Inr v \<longrightarrow> val_ok (length (objects w')) v)"
  using run
proof (cases rule: singleton_cases)
  case (cached v)
  with wf wf_cached [of "installed g w" g i v] show ?thesis by (simp add: wf_installed)
next
  case (threw e)
  with mk [OF wf_installed [OF wf] threw(2)] show ?thesis by simp
next
  case (made v w2)
  with mk [OF wf_installed [OF wf] made(2)] show ?thesis by (simp add: wf_cache_set)
qed

lemma weak_sound:
  assumes mk: "\<And>w r w'. wf_world w \<Longrightarrow> maker g w = Some (r, w') \<Longrightarrow>
                 wf_world w' \<and> (\<forall>v. r = Inr v \<longrightarrow> val_ok (length (objects w')) v)"
    and wf: "wf_world w"
    and run: "weak maker g i w = Some (r, w')"
  shows "wf_world w' \<and> (\<forall>v. r = Inr v \<longrightarrow> val_ok (length (objects w')) v)"
  using run
proof (cases rule: weak_cases)
  case redefined
  with wf show ?thesis by simp
next
  case (threw e)
  with mk [OF wf_installed [OF wf] threw(3)] show ?thesis by simp
next
  case (made v w2)
  with mk [OF wf_installed [OF wf] made(3)] show ?thesis
    by (simp add: wf_cache_set val_ok_def)
next
  case (own_threw e)
  with wf_weak [OF wf, of g] show ?thesis by simp
next
  case (own_made v w2)
  with wf_weak [OF wf, of g] show ?thesis by simp
qed

lemma resolve_sound: "sound (resolve n)"
proof (induction n)
  case 0
  show ?case by (auto simp: sound_def split: option.splits)
next
  case (Suc n)
  show ?case
    unfolding sound_def
  proof (intro allI impI)
    fix g i w r w'
    assume wf: "wf_world w" and run: "resolve (Suc n) g i w = Some (r, w')"
    show "wf_world w' \<and> (\<forall>v. r = Inr v \<longrightarrow> val_ok (length (objects w')) v)"
    proof (cases "provider_of w g i")
      case None
      with run wf show ?thesis by auto
    next
      case (Some p)
      obtain sc mk where p: "p = (sc, mk)" by (cases p)
      from run Some p have a: "apply_scope sc (run_maker (resolve n) mk) g i w = Some (r, w')"
        by simp
      have mk: "\<And>w r w'. wf_world w \<Longrightarrow> run_maker (resolve n) mk g w = Some (r, w') \<Longrightarrow>
                 wf_world w' \<and> (\<forall>v. r = Inr v \<longrightarrow> val_ok (length (objects w')) v)"
        using Suc resolve_framed by (rule run_maker_sound)
      show ?thesis
      proof (cases sc)
        case ScopeNone
        with a mk [OF wf] show ?thesis by (simp add: none_def)
      next
        case ScopeSingleton
        with a have "singleton (run_maker (resolve n) mk) g i w = Some (r, w')" by simp
        with mk wf show ?thesis by (rule singleton_sound)
      next
        case ScopeWeak
        with a have "weak (run_maker (resolve n) mk) g i w = Some (r, w')" by simp
        with mk wf show ?thesis by (rule weak_sound)
      qed
    qed
  qed
qed

lemma wf_build: "wf_world w \<Longrightarrow> wf_world (snd (build b w))"
  by (simp add: build_eq wf_world_def hidden_ok_def)

lemma gopd_build_new:
  "getOwnPropertyDescriptor (snd (build b w)) (fst (build b w)) s = None"
  by (cases s) (simp_all add: build_eq getOwnPropertyDescriptor_def)


lemma map_at_same: "map_store w' = map_store w \<Longrightarrow> map_at w' a = map_at w a"
  by (simp add: map_at_def)

lemma provider_of_same:
  "map_store w' = map_store w \<Longrightarrow> provider_of w' g i = provider_of w g i"
  by (simp add: provider_of_def map_at_def)


subsection \<open>Resolution returns when the dependencies are met\<close>

lemma ctor_body_total:
  assumes each: "\<And>d w1. d \<in> set ds \<Longrightarrow> map_store w1 = map_store w \<Longrightarrow>
                   \<exists>v w'. res g d w1 = Some (Inr v, w')"
    and fr: "framed res"
  shows "map_store w1 = map_store w \<Longrightarrow>
         \<exists>w'. ctor_body res (Some g) ds w1 = Some (Inr (), w')"
  using each
proof (induction ds arbitrary: w1)
  case Nil
  then show ?case by simp
next
  case (Cons d ds)
  from Cons.prems(2) [of d w1] Cons.prems(1) obtain v w2 where
    step: "res g d w1 = Some (Inr v, w2)" by auto
  with fr have "frame g w1 w2" by (auto simp: framed_def)
  with Cons.prems(1) have "map_store w2 = map_store w" by (simp add: frame_map_store)
  then have "\<exists>w'. ctor_body res (Some g) ds w2 = Some (Inr (), w')"
    using Cons.prems(2) by (intro Cons.IH) auto
  with step show ?case by simp
qed

lemma new_ctor_objects:
  assumes "framed res" and "new_ctor res c garg w = Some (r, w')"
  shows "\<exists>new. objects w' = objects w @ cls c # new"
proof -
  let ?w1 = "w\<lparr>objects := objects w @ [cls c]\<rparr>"
  from assms(2) obtain r2 where body: "ctor_body res garg (needs c) ?w1 = Some (r2, w')"
    by (auto simp: new_ctor_def Let_def split: option.splits sum.splits)
  obtain g where "garg = Some g \<or> garg = None" by (cases garg) auto
  with assms(1) body have "frame g ?w1 w'" by (rule ctor_body_frame)
  then show ?thesis by (auto dest: frame_objects)
qed

lemma run_maker_objects:
  assumes "framed res" and "run_maker res mk g w = Some (r, w')"
  shows "\<exists>new. objects w' = objects w @ cls (maker_ctor mk) # new"
  using assms by (cases mk) (auto dest: new_ctor_objects)

lemma maker_ok_needs: "maker_ok earlier mk \<Longrightarrow> set (needs (maker_ctor mk)) \<subseteq> set earlier"
  by (cases mk) simp_all

lemma run_maker_total:
  assumes each: "\<And>d w1. d \<in> set (needs (maker_ctor mk)) \<Longrightarrow> map_store w1 = map_store w \<Longrightarrow>
                   \<exists>v w'. res g d w1 = Some (Inr v, w')"
    and fr: "framed res"
    and empty: "maker_ok earlier mk"
    and same: "map_store w1 = map_store w"
  shows "\<exists>w'. run_maker res mk g w1 = Some (Inr (Inst (length (objects w1))), w')"
proof (cases mk)
  case (NewEmpty c)
  with empty show ?thesis by (simp add: new_ctor_def)
next
  case (NewGraph c)
  let ?w1 = "w1\<lparr>objects := objects w1 @ [cls c]\<rparr>"
  from same have "map_store ?w1 = map_store w" by simp
  with each fr NewGraph have "\<exists>w'. ctor_body res (Some g) (needs c) ?w1 = Some (Inr (), w')"
    by (intro ctor_body_total [where w = w]) auto
  with NewGraph show ?thesis by (auto simp: new_ctor_def Let_def)
qed

lemma singleton_total:
  assumes "\<And>w1. map_store w1 = map_store w \<Longrightarrow> \<exists>v w'. maker g w1 = Some (Inr v, w')"
  shows "\<exists>v w'. singleton maker g i w = Some (Inr v, w')"
proof (cases "cache_get (installed g w) g singletonSymbol i")
  case (Some v)
  then show ?thesis
    by (cases "getOwnPropertyDescriptor w g singletonSymbol")
       (auto simp: singleton_def installed_def defineProperty_def)
next
  case None
  from assms [of "installed g w"] obtain v w2 where "maker g (installed g w) = Some (Inr v, w2)"
    by auto
  with None show ?thesis
    by (cases "getOwnPropertyDescriptor w g singletonSymbol")
       (auto simp: singleton_def installed_def defineProperty_def)
qed

lemma resolve_total:
  assumes "deps_ok (map_at w (gmap g)) order" and "i \<in> set order" and "length order \<le> n"
  shows "\<exists>v w'. resolve n g i w = Some (Inr v, w')"
  using assms
proof (induction order arbitrary: i n w)
  case Nil
  then show ?case by simp
next
  case (Cons x earlier)
  from Cons.prems(1) have ok: "deps_ok (map_at w (gmap g)) earlier" by simp
  show ?case
  proof (cases "i \<in> set earlier")
    case True
    with ok Cons.prems(3) show ?thesis by (intro Cons.IH) auto
  next
    case False
    with Cons.prems(2) have ix: "i = x" by simp
    from Cons.prems(1) obtain sc mk where
      bound: "provider_of w g x = Some (sc, mk)" and sc: "sc \<noteq> ScopeWeak"
      and empty: "maker_ok earlier mk"
      by (auto simp: provider_of_def split: option.splits)
    from empty have deps: "set (needs (maker_ctor mk)) \<subseteq> set earlier"
      by (rule maker_ok_needs)
    from Cons.prems(3) obtain n' where n: "n = Suc n'" and n': "length earlier \<le> n'"
      by (cases n) auto
    have each: "\<exists>v w'. resolve n' g d w1 = Some (Inr v, w')"
      if "d \<in> set (needs (maker_ctor mk))" "map_store w1 = map_store w" for d w1
    proof -
      from that(2) ok have "deps_ok (map_at w1 (gmap g)) earlier"
        by (simp add: map_at_same [of w1 w])
      moreover from that(1) deps have "d \<in> set earlier" by auto
      ultimately show ?thesis using n' by (rule Cons.IH)
    qed
    have mk: "\<exists>v w'. run_maker (resolve n') mk g w1 = Some (Inr v, w')"
      if "map_store w1 = map_store w" for w1
      using run_maker_total [OF each resolve_framed empty that] by blast
    show ?thesis
    proof (cases sc)
      case ScopeNone
      with bound mk [of w] show ?thesis by (simp add: ix n none_def)
    next
      case ScopeSingleton
      with bound singleton_total [of w "run_maker (resolve n') mk" g x] mk
      show ?thesis by (simp add: ix n)
    next
      case ScopeWeak
      with sc show ?thesis by simp
    qed
  qed
qed

lemma wf_init: "wf_world init_world"
  by (simp add: wf_world_def init_world_def)

lemma wf_start: "wf_world w \<Longrightarrow> wf_world (snd (start impl c sc w))"
  by (simp add: start_eq wf_world_def)

lemma wf_add: "wf_world w \<Longrightarrow> wf_world (snd (add b impl c sc w))"
  by (simp add: add_eq wf_world_def)

lemma run_op_wf:
  assumes "wf_world w" and "run_op x w = Some w'"
  shows "wf_world w'"
proof (cases x)
  case (OpStart impl c sc)
  with assms show ?thesis by (auto simp: wf_start)
next
  case (OpAdd b impl c sc)
  with assms show ?thesis by (auto simp: wf_add)
next
  case (OpBuild b)
  with assms show ?thesis by (auto simp: wf_build)
next
  case (OpModify g)
  with assms show ?thesis by simp
next
  case (OpResolve n g i)
  with assms obtain r where "resolve n g i w = Some (r, w')" by auto
  with assms(1) resolve_sound [of n] show ?thesis by (auto simp: sound_def)
qed

lemma run_ops_wf: "wf_world w \<Longrightarrow> run_ops xs w = Some w' \<Longrightarrow> wf_world w'"
proof (induction xs arbitrary: w)
  case Nil
  then show ?case by simp
next
  case (Cons x xs)
  then obtain w1 where "run_op x w = Some w1" and "run_ops xs w1 = Some w'"
    by (auto split: option.splits)
  with Cons.prems(1) Cons.IH show ?case by (blast intro: run_op_wf)
qed

lemma resolve_defines:
  assumes valid: "gid g < length (graph_store w0)"
    and weak0: "getOwnPropertyDescriptor w0 g weakSymbol = None"
    and prior: "provider_of w0 g i = Some (sc, mk)" "sc \<noteq> ScopeNone"
    and first: "resolve n g i w0 = Some (r, w)"
  shows "getOwnPropertyDescriptor w g singletonSymbol \<noteq> None"
proof -
  from prior first obtain n' where
    run: "apply_scope sc (run_maker (resolve n') mk) g i w0 = Some (r, w)"
    by (cases n) simp_all
  have mk: "\<And>w r w'. run_maker (resolve n') mk g w = Some (r, w') \<Longrightarrow> frame g w w'"
    using resolve_framed by (rule run_maker_frame)
  show ?thesis
  proof (cases sc)
    case ScopeNone
    with prior show ?thesis by simp
  next
    case ScopeSingleton
    with run have "singleton (run_maker (resolve n') mk) g i w0 = Some (r, w)" by simp
    with valid mk show ?thesis by (rule singleton_defines)
  next
    case ScopeWeak
    with run have "weak (run_maker (resolve n') mk) g i w0 = Some (r, w)" by simp
    with valid mk weak0 show ?thesis by (rule weak_defines)
  qed
qed

lemma cache_get_installed:
  "cache_get w g singletonSymbol i = None \<Longrightarrow> cache_get (installed g w) g singletonSymbol i = None"
  by (auto simp: installed_def cache_get_def gopd_set_prop)

lemma apply_scope_fresh_throws:
  assumes fresh: "\<And>s. getOwnPropertyDescriptor w g s = None"
    and mk: "\<And>w1. map_store w1 = map_store w \<Longrightarrow> \<exists>w2. maker g w1 = Some (Inl e, w2)"
  shows "\<exists>w3. apply_scope sc maker g i w = Some (Inl e, w3)"
proof -
  from fresh have "cache_get w g singletonSymbol i = None" by (simp add: cache_get_def)
  then have empty: "cache_get (installed g w) g singletonSymbol i = None"
    by (rule cache_get_installed)
  from mk [of "installed g w"] obtain w2 where
    thrown: "maker g (installed g w) = Some (Inl e, w2)" by auto
  show ?thesis
  proof (cases sc)
    case ScopeNone
    with mk [of w] show ?thesis by (simp add: none_def)
  next
    case ScopeSingleton
    with fresh [of singletonSymbol] empty thrown show ?thesis
      by (simp add: singleton_def defineProperty_def installed_def)
  next
    case ScopeWeak
    with fresh [of singletonSymbol] fresh [of weakSymbol] empty thrown show ?thesis
      by (simp add: weak_def defineProperty_def installed_def)
  qed
qed

lemma singleton_repeats:
  assumes valid: "gid g < length (graph_store w)"
    and bound: "provider_of w g i = Some (ScopeSingleton, mk)"
    and first: "resolve n g i w = Some (Inr v, w1)"
    and later: "run_ops ops w1 = Some w2"
  shows "resolve (Suc m) g i w2 = Some (Inr v, w2)"
proof -
  from bound first obtain n' where
    run: "singleton (run_maker (resolve n') mk) g i w = Some (Inr v, w1)"
    by (cases n) simp_all
  have mk: "\<And>w r w'. run_maker (resolve n') mk g w = Some (r, w') \<Longrightarrow> frame g w w'"
    using resolve_framed by (rule run_maker_frame)
  from valid mk run have c1: "cache_get w1 g singletonSymbol i = Some v"
    by (rule singleton_caches)
  from first have "extends w w1" by (blast dest: resolve_frame frame_extends)
  moreover from later have "extends w1 w2" by (rule run_ops_extends)
  ultimately have e: "extends w w2" and c2: "cache_get w2 g singletonSymbol i = Some v"
    using c1 by (auto intro: extends_trans simp: extends_def)
  from e bound have "provider_of w2 g i = Some (ScopeSingleton, mk)"
    by (rule extends_provider_of)
  with c2 show ?thesis by (simp add: singleton_cached)
qed

section \<open>Adding a binding\<close>

text \<open>
  Claim C1, as the code has it. \<open>add\<close> makes no check of the provider's requirements
  at run time (the check is the conditional return type, made by the compiler): for every
  builder \<open>b\<close> and every constructor it returns a new builder in which the binding is
  stored, whether or not the interfaces the constructor requires are bound in \<open>b\<close>, and
  the graph built from it has the binding. The unmet requirement shows only at
  resolution: on the graph just built, when the first interface the constructor resolves
  is neither bound in \<open>b\<close> nor the interface being bound, the first \<open>resolve\<close> of the
  new binding, under any of the three scopes, throws what \<open>resolve\<close> throws for that
  unbound interface.
\<close>

theorem add_stores_unchecked:
  assumes "add b impl c sc w = (b', w')" and "build b' w' = (g, w'')"
  shows "map_of (map_at w' (bmap b')) impl = Some (scope_or_default sc, NewGraph c) \<and>
         provider_of w'' g impl = Some (scope_or_default sc, NewGraph c) \<and>
         (needs c = j # rest \<and> j \<noteq> impl \<and> map_of (map_at w (bmap b)) j = None \<longrightarrow>
            (\<exists>w3. resolve (Suc n) g impl w'' = Some (Inl (unsatisfied j), w3)))"
proof -
  from assms have b': "b' = fst (add b impl c sc w)" and w': "w' = snd (add b impl c sc w)"
    and g: "g = fst (build b' w')" and w'': "w'' = snd (build b' w')"
    by simp_all
  have stored: "map_of (map_at w' (bmap b')) impl = Some (scope_or_default sc, NewGraph c)"
    by (simp add: b' w' map_of_add_new)
  have p: "provider_of w'' g = (map_of (map_at w (bmap b)))(impl \<mapsto> (scope_or_default sc, NewGraph c))"
    using provider_of_build [of b' w'] map_of_add_new [of b impl c sc w] assms by simp
  then have bound: "provider_of w'' g impl = Some (scope_or_default sc, NewGraph c)" by simp
  have "\<exists>w3. resolve (Suc n) g impl w'' = Some (Inl (unsatisfied j), w3)"
    if first: "needs c = j # rest" and other: "j \<noteq> impl"
      and unmet: "map_of (map_at w (bmap b)) j = None"
  proof -
    from p other unmet have none: "provider_of w'' g j = None" by simp
    have fresh: "getOwnPropertyDescriptor w'' g s = None" for s
      by (simp add: g w'' gopd_build_new)
    have "\<exists>w2. run_maker (resolve n) (NewGraph c) g w1 = Some (Inl (unsatisfied j), w2)"
      if "map_store w1 = map_store w''" for w1
    proof -
      from that none have "provider_of w1 g j = None" by (simp add: provider_of_same [of w1 w''])
      with first show ?thesis by (simp add: new_ctor_unmet)
    qed
    with fresh have "\<exists>w3. apply_scope (scope_or_default sc) (run_maker (resolve n) (NewGraph c))
        g impl w'' = Some (Inl (unsatisfied j), w3)"
      by (intro apply_scope_fresh_throws) auto
    with bound show ?thesis by simp
  qed
  with stored bound show ?thesis by blast
qed

theorem add_stores_unchecked_witness:
  "add (fst heater_only) CoffeeMaker CoffeeMaker_class (Some ScopeSingleton) (snd heater_only) =
     (fst no_pump_singleton, snd no_pump_singleton) \<and>
   build (fst no_pump_singleton) (snd no_pump_singleton) =
     (fst no_pump_library, snd no_pump_library) \<and>
   needs CoffeeMaker_class = [Pump] \<and> Pump \<noteq> CoffeeMaker \<and>
   map_of (map_at (snd heater_only) (bmap (fst heater_only))) Pump = None \<and>
   map_of (map_at (snd no_pump_singleton) (bmap (fst no_pump_singleton))) CoffeeMaker =
     Some (ScopeSingleton, NewGraph CoffeeMaker_class) \<and>
   provider_of (snd no_pump_library) (fst no_pump_library) CoffeeMaker =
     Some (ScopeSingleton, NewGraph CoffeeMaker_class) \<and>
   (\<exists>w3. resolve (Suc 2) (fst no_pump_library) CoffeeMaker (snd no_pump_library) =
      Some (Inl (Error ''Unsatisfied dependency for class Pump''), w3))"
proof -
  have a: "add (fst heater_only) CoffeeMaker CoffeeMaker_class (Some ScopeSingleton)
             (snd heater_only) = (fst no_pump_singleton, snd no_pump_singleton)"
    by (simp add: no_pump_singleton_def)
  have b: "build (fst no_pump_singleton) (snd no_pump_singleton) =
             (fst no_pump_library, snd no_pump_library)"
    by (simp add: no_pump_library_def)
  have c: "needs CoffeeMaker_class = [Pump]" by (simp add: CoffeeMaker_class_def)
  have d: "Pump \<noteq> CoffeeMaker" by (simp add: Pump_def CoffeeMaker_def)
  have e: "map_of (map_at (snd heater_only) (bmap (fst heater_only))) Pump = None"
    by code_simp
  have f: "scope_or_default (Some ScopeSingleton) = ScopeSingleton"
    by (simp add: scope_or_default_def)
  have u: "unsatisfied Pump = Error ''Unsatisfied dependency for class Pump''"
    by (simp add: unsatisfied_def Pump_def)
  note stored = add_stores_unchecked [OF a b, of Pump "[]" 2]
  from stored f have s1: "map_of (map_at (snd no_pump_singleton) (bmap (fst no_pump_singleton)))
      CoffeeMaker = Some (ScopeSingleton, NewGraph CoffeeMaker_class)"
    by simp
  from stored f have s2: "provider_of (snd no_pump_library) (fst no_pump_library) CoffeeMaker =
      Some (ScopeSingleton, NewGraph CoffeeMaker_class)"
    by simp
  from stored c d e u
  have s3: "\<exists>w3. resolve (Suc 2) (fst no_pump_library) CoffeeMaker (snd no_pump_library) =
      Some (Inl (Error ''Unsatisfied dependency for class Pump''), w3)"
    by simp
  from a b c d e s1 s2 s3 show ?thesis by (intro conjI)
qed

text \<open>
  Claim C1 as stated fails: \<open>CoffeeMaker\<close> needs \<open>Pump\<close>, the builder holds the heater
  only, and \<open>add\<close> returns a builder that holds the binding of \<open>CoffeeMaker\<close>; the
  error comes from \<open>resolve\<close> on the graph built from it.
\<close>

theorem add_accepts_unmet_dependency:
  "needs CoffeeMaker_class = [Pump] \<and>
   map_of (map_at (snd heater_only) (bmap (fst heater_only))) Pump = None \<and>
   add (fst heater_only) CoffeeMaker CoffeeMaker_class None (snd heater_only) = no_pump \<and>
   map_of (map_at (snd no_pump) (bmap (fst no_pump))) CoffeeMaker =
     Some (ScopeNone, NewGraph CoffeeMaker_class) \<and>
   map_option fst (resolve 3 (fst no_pump_graph) CoffeeMaker (snd no_pump_graph)) =
     Some (Inl (Error ''Unsatisfied dependency for class Pump''))"
  by code_simp

text \<open>
  Claim C5. \<open>add\<close> is a persistent update. For a builder \<open>b1\<close> of the heap,
  \<open>b2 = b1.add(i, c)\<close> holds another map, which is the map of \<open>b1\<close> with the binding
  of \<open>i\<close> set; the map of \<open>b1\<close> is as it was. A graph built from \<open>b1\<close> afterwards has
  exactly the bindings \<open>b1\<close> had, so that \<open>resolve(i)\<close> on it throws when \<open>i\<close> was not
  bound in \<open>b1\<close>; a graph built from \<open>b2\<close> has the new binding.
\<close>

theorem add_persistent:
  assumes live: "bmap b1 < length (map_store w)"
    and "add b1 i c sc w = (b2, w2)"
    and "build b1 w2 = (g1, w3)"
    and "build b2 w3 = (g2, w4)"
  shows "bmap b2 \<noteq> bmap b1 \<and>
         map_at w2 (bmap b1) = map_at w (bmap b1) \<and>
         map_at w2 (bmap b2) =
           AList.update i (scope_or_default sc, NewGraph c) (map_at w (bmap b1)) \<and>
         provider_of w4 g1 = map_of (map_at w (bmap b1)) \<and>
         (map_of (map_at w (bmap b1)) i = None \<longrightarrow>
            resolve n g1 i w4 = Some (Inl (unsatisfied i), w4)) \<and>
         provider_of w4 g2 i = Some (scope_or_default sc, NewGraph c)"
proof -
  from assms(2) have b2: "bmap b2 = length (map_store w)"
    and w2: "w2 = snd (add b1 i c sc w)" and b2': "b2 = fst (add b1 i c sc w)"
    by (auto simp: add_eq)
  from assms(3) have g1: "g1 = fst (build b1 w2)" and w3: "w3 = snd (build b1 w2)"
    by simp_all
  from assms(4) have g2: "g2 = fst (build b2 w3)" and w4: "w4 = snd (build b2 w3)"
    by simp_all
  have len2: "length (map_store w2) = Suc (length (map_store w))"
    by (simp add: w2 add_eq)
  have len3: "length (map_store w3) = Suc (Suc (length (map_store w)))"
    by (simp add: w3 build_eq len2)
  have old: "map_at w2 (bmap b1) = map_at w (bmap b1)"
    using live by (simp add: w2 map_at_add_old)
  have new: "map_at w2 (bmap b2) =
           AList.update i (scope_or_default sc, NewGraph c) (map_at w (bmap b1))"
    by (simp add: w2 b2' map_at_add_new)
  have "gmap g1 = length (map_store w2)" by (simp add: g1 build_eq)
  then have "map_at w4 (gmap g1) = map_at w3 (gmap g1)"
    by (simp add: w4 map_at_build len3 len2)
  also have "\<dots> = map_at w2 (bmap b1)"
    by (simp add: g1 w3 build_eq map_at_def)
  finally have m1: "map_at w4 (gmap g1) = map_at w (bmap b1)" using old by simp
  then have p1: "provider_of w4 g1 = map_of (map_at w (bmap b1))"
    by (intro ext) (simp add: provider_of_def)
  have "map_at w3 (bmap b2) = map_at w2 (bmap b2)"
    by (simp add: w3 map_at_build b2 len2)
  with new have "provider_of w4 g2 = (map_of (map_at w (bmap b1)))(i \<mapsto> (scope_or_default sc, NewGraph c))"
    using provider_of_build [of b2 w3] by (simp add: g2 w4 update_conv')
  then have p2: "provider_of w4 g2 i = Some (scope_or_default sc, NewGraph c)" by simp
  have "resolve n g1 i w4 = Some (Inl (unsatisfied i), w4)"
    if "map_of (map_at w (bmap b1)) i = None"
    using that p1 by (cases n) simp_all
  with live b2 old new p1 p2 show ?thesis by simp
qed

theorem add_persistent_witness:
  "bmap (fst heater_only) < length (map_store (snd heater_only)) \<and>
   add (fst heater_only) Pump Thermosiphon None (snd heater_only) =
     (fst with_pump, snd with_pump) \<and>
   build (fst heater_only) (snd with_pump) = (fst pump_before, snd pump_before) \<and>
   build (fst with_pump) (snd pump_before) = (fst pump_after, snd pump_after) \<and>
   map_of (map_at (snd heater_only) (bmap (fst heater_only))) Pump = None \<and>
   bmap (fst with_pump) \<noteq> bmap (fst heater_only) \<and>
   map_at (snd with_pump) (bmap (fst heater_only)) =
     map_at (snd heater_only) (bmap (fst heater_only)) \<and>
   resolve 2 (fst pump_before) Pump (snd pump_after) =
     Some (Inl (unsatisfied Pump), snd pump_after) \<and>
   provider_of (snd pump_after) (fst pump_after) Pump =
     Some (scope_or_default None, NewGraph Thermosiphon)"
proof -
  have a: "bmap (fst heater_only) < length (map_store (snd heater_only))" by code_simp
  have b: "add (fst heater_only) Pump Thermosiphon None (snd heater_only) =
             (fst with_pump, snd with_pump)"
    by (simp add: with_pump_def)
  have c: "build (fst heater_only) (snd with_pump) = (fst pump_before, snd pump_before)"
    by (simp add: pump_before_def)
  have d: "build (fst with_pump) (snd pump_before) = (fst pump_after, snd pump_after)"
    by (simp add: pump_after_def)
  have e: "map_of (map_at (snd heater_only) (bmap (fst heater_only))) Pump = None"
    by code_simp
  from add_persistent [OF a b c d, of 2] a b c d e show ?thesis by simp
qed



section \<open>Building a graph\<close>

text \<open>
  Claim C9. \<open>build\<close> takes a snapshot and leaves the builder usable. For a builder
  \<open>b\<close> of the heap and \<open>g = b.build()\<close>: the graph has the bindings \<open>b\<close> holds at
  that moment; after any sequence of later operations (on \<open>b\<close>, on builders derived from
  it or from the graph, resolutions) the graph has the same bindings; the map of \<open>b\<close> is
  unchanged, so a later \<open>b.add\<close> gives the bindings of \<open>b\<close> with the new one set and a
  later \<open>b.build()\<close> gives a graph with the bindings of \<open>b\<close>.
\<close>

theorem build_snapshot:
  assumes live: "bmap b < length (map_store w)"
    and built: "build b w = (g, w1)"
    and later: "run_ops ops w1 = Some w2"
  shows "provider_of w1 g = map_of (map_at w (bmap b)) \<and>
         provider_of w2 g = provider_of w1 g \<and>
         map_at w2 (bmap b) = map_at w (bmap b) \<and>
         map_at (snd (add b i c sc w2)) (bmap (fst (add b i c sc w2))) =
           AList.update i (scope_or_default sc, NewGraph c) (map_at w (bmap b)) \<and>
         provider_of (snd (build b w2)) (fst (build b w2)) = map_of (map_at w (bmap b))"
proof -
  from built have g: "g = fst (build b w)" and w1: "w1 = snd (build b w)" by simp_all
  have p1: "provider_of w1 g = map_of (map_at w (bmap b))"
    by (simp add: g w1 provider_of_build)
  have len: "length (map_store w1) = Suc (length (map_store w))" and gm: "gmap g = length (map_store w)"
    by (simp_all add: g w1 build_eq)
  from later have e: "extends w1 w2" by (rule run_ops_extends)
  with len gm have "map_at w2 (gmap g) = map_at w1 (gmap g)" by (simp add: extends_def)
  then have p2: "provider_of w2 g = provider_of w1 g" by (intro ext) (simp add: provider_of_def)
  from e live len have "map_at w2 (bmap b) = map_at w1 (bmap b)" by (simp add: extends_def)
  with live have m: "map_at w2 (bmap b) = map_at w (bmap b)" by (simp add: w1 map_at_build)
  with p1 p2 show ?thesis by (simp add: map_at_add_new provider_of_build)
qed

theorem build_snapshot_witness:
  "bmap (fst with_pump) < length (map_store (snd with_pump)) \<and>
   build (fst with_pump) (snd with_pump) = (fst pump_graph, snd pump_graph) \<and>
   run_ops pump_later_ops (snd pump_graph) = Some pump_later \<and>
   provider_of (snd pump_graph) (fst pump_graph) =
     map_of (map_at (snd with_pump) (bmap (fst with_pump))) \<and>
   provider_of pump_later (fst pump_graph) = provider_of (snd pump_graph) (fst pump_graph) \<and>
   map_at pump_later (bmap (fst with_pump)) = map_at (snd with_pump) (bmap (fst with_pump)) \<and>
   provider_of (snd (build (fst with_pump) pump_later)) (fst (build (fst with_pump) pump_later)) =
     map_of (map_at (snd with_pump) (bmap (fst with_pump)))"
proof -
  have a: "bmap (fst with_pump) < length (map_store (snd with_pump))" by code_simp
  have b: "build (fst with_pump) (snd with_pump) = (fst pump_graph, snd pump_graph)"
    by (simp add: pump_graph_def)
  have c: "run_ops pump_later_ops (snd pump_graph) = Some pump_later" by code_simp
  from build_snapshot [OF a b c] a b c show ?thesis by simp
qed

section \<open>Resolution of an unbound interface\<close>

text \<open>
  Claim C2, as the code has it. On every graph, resolving a token that has no binding in
  the graph's map always throws, whatever the nesting budget, and leaves the heap as it
  was; it never returns a value. What it throws is made by the template literal: when the
  token converts to the string \<open>s\<close>, a plain \<open>Error\<close> whose message is
  \<open>Unsatisfied dependency for\<close> followed by \<open>s\<close>, the token's text; when the
  conversion of the token throws, that error.
\<close>

theorem resolve_unbound_fails:
  "provider_of w g j = None \<Longrightarrow>
     (\<exists>e. resolve n g j w = Some (Inl e, w)) \<and>
     (toString j = Inr s \<longrightarrow>
        resolve n g j w = Some (Inl (Error (''Unsatisfied dependency for '' @ s)), w)) \<and>
     (toString j = Inl e' \<longrightarrow> resolve n g j w = Some (Inl e', w))"
  by (cases n) (simp_all add: unsatisfied_def)

theorem resolve_unbound_fails_witness:
  "provider_of (snd (coffee_graph None)) (fst (coffee_graph None)) Grinder = None \<and>
   toString Grinder = Inr ''class Grinder'' \<and>
   resolve 3 (fst (coffee_graph None)) Grinder (snd (coffee_graph None)) =
     Some (Inl (Error (''Unsatisfied dependency for '' @ ''class Grinder'')),
           snd (coffee_graph None)) \<and>
   provider_of (snd (coffee_graph None)) (fst (coffee_graph None)) Opaque = None \<and>
   toString Opaque = Inl TypeError \<and>
   resolve 3 (fst (coffee_graph None)) Opaque (snd (coffee_graph None)) =
     Some (Inl TypeError, snd (coffee_graph None))"
proof -
  have h: "provider_of (snd (coffee_graph None)) (fst (coffee_graph None)) Grinder = None"
    by code_simp
  have t: "toString Grinder = Inr ''class Grinder''" by (simp add: Grinder_def)
  have h': "provider_of (snd (coffee_graph None)) (fst (coffee_graph None)) Opaque = None"
    by code_simp
  have t': "toString Opaque = Inl TypeError" by (simp add: Opaque_def)
  from resolve_unbound_fails [OF h, of 3 "''class Grinder''"] t
  have r: "resolve 3 (fst (coffee_graph None)) Grinder (snd (coffee_graph None)) =
     Some (Inl (Error (''Unsatisfied dependency for '' @ ''class Grinder'')),
           snd (coffee_graph None))"
    by blast
  from resolve_unbound_fails [OF h', of 3 _ TypeError] t'
  have r': "resolve 3 (fst (coffee_graph None)) Opaque (snd (coffee_graph None)) =
     Some (Inl TypeError, snd (coffee_graph None))"
    by blast
  from h t r h' t' r' show ?thesis by (intro conjI)
qed

text \<open>
  Claim C2 as stated fails: for an unbound token whose conversion to string throws,
  \<open>resolve\<close> throws that TypeError, not the unsatisfied-dependency error; and two
  distinct unbound tokens with the same text get the same error, which therefore does
  not carry the identity of the token.
\<close>

theorem unbound_error_carries_text_not_identity:
  "provider_of (snd (coffee_graph None)) (fst (coffee_graph None)) Opaque = None \<and>
   resolve 3 (fst (coffee_graph None)) Opaque (snd (coffee_graph None)) =
     Some (Inl TypeError, snd (coffee_graph None)) \<and>
   provider_of (snd (coffee_graph None)) (fst (coffee_graph None)) Grinder = None \<and>
   provider_of (snd (coffee_graph None)) (fst (coffee_graph None)) Grinder_twin = None \<and>
   Grinder \<noteq> Grinder_twin \<and>
   resolve 3 (fst (coffee_graph None)) Grinder (snd (coffee_graph None)) =
     resolve 3 (fst (coffee_graph None)) Grinder_twin (snd (coffee_graph None))"
  by code_simp

section \<open>The scope none\<close>

text \<open>
  Claim C6, as the code has it. Let \<open>i\<close> be bound with scope none in graph \<open>g\<close>, to a
  constructor whose requirements are met in \<open>g\<close>: they are bound, in an order in which
  each binding needs only the ones before it, and none through \<open>scopes.weak\<close>. Then two
  consecutive calls \<open>g.resolve(i)\<close> both return; each allocates a new instance of the
  bound class and returns it, so the provider runs twice and the two instances are
  distinct.
\<close>

theorem none_constructs_afresh:
  assumes bound: "provider_of w g i = Some (ScopeNone, mk)"
    and ok: "deps_ok (map_at w (gmap g)) (i # earlier)"
    and fuel: "length earlier < n"
  shows "\<exists>w1 w2.
           resolve n g i w = Some (Inr (Inst (length (objects w))), w1) \<and>
           resolve n g i w1 = Some (Inr (Inst (length (objects w1))), w2) \<and>
           length (objects w) < length (objects w1) \<and>
           length (objects w1) < length (objects w2) \<and>
           objects w2 ! length (objects w) = cls (maker_ctor mk) \<and>
           objects w2 ! length (objects w1) = cls (maker_ctor mk)"
proof -
  from fuel obtain n' where n: "n = Suc n'" and n': "length earlier \<le> n'"
    by (cases n) auto
  from ok bound have empty: "maker_ok earlier mk"
    and ok': "deps_ok (map_at w (gmap g)) earlier"
    by (auto simp: provider_of_def)
  from empty have deps: "set (needs (maker_ctor mk)) \<subseteq> set earlier"
    by (rule maker_ok_needs)
  have each: "\<exists>v w'. resolve n' g d w1 = Some (Inr v, w')"
    if "d \<in> set (needs (maker_ctor mk))" "map_store w1 = map_store w" for d w1
  proof -
    from that(2) ok' have "deps_ok (map_at w1 (gmap g)) earlier"
      by (simp add: map_at_same [of w1 w])
    moreover from that(1) deps have "d \<in> set earlier" by auto
    ultimately show ?thesis using n' by (rule resolve_total)
  qed
  have call: "\<exists>w'. resolve n g i w1 = Some (Inr (Inst (length (objects w1))), w')"
    if "map_store w1 = map_store w" for w1
  proof -
    from that bound have "provider_of w1 g i = Some (ScopeNone, mk)"
      by (simp add: provider_of_same [of w1 w])
    with run_maker_total [OF each resolve_framed empty that] show ?thesis
      by (simp add: n none_def)
  qed
  from call [of w] obtain w1 where
    c1: "resolve n g i w = Some (Inr (Inst (length (objects w))), w1)" by auto
  then have "frame g w w1" by (rule resolve_frame)
  then have "map_store w1 = map_store w" by (rule frame_map_store)
  from call [OF this] obtain w2 where
    c2: "resolve n g i w1 = Some (Inr (Inst (length (objects w1))), w2)" by auto
  have grows: "\<exists>new. objects wb = objects wa @ cls (maker_ctor mk) # new"
    if "resolve n g i wa = Some (r, wb)" "map_store wa = map_store w" for wa wb r
  proof -
    from that(2) bound have "provider_of wa g i = Some (ScopeNone, mk)"
      by (simp add: provider_of_same [of wa w])
    with that(1) have "run_maker (resolve n') mk g wa = Some (r, wb)"
      by (simp add: n none_def)
    with resolve_framed show ?thesis by (rule run_maker_objects)
  qed
  from grows [OF c1] obtain new1 where o1: "objects w1 = objects w @ cls (maker_ctor mk) # new1"
    by auto
  from grows [OF c2 \<open>map_store w1 = map_store w\<close>] obtain new2 where
    o2: "objects w2 = objects w1 @ cls (maker_ctor mk) # new2" by auto
  from o1 o2 have "length (objects w) < length (objects w1)"
    and "length (objects w1) < length (objects w2)"
    and "objects w2 ! length (objects w1) = cls (maker_ctor mk)"
    and "objects w2 ! length (objects w) = cls (maker_ctor mk)"
    by (simp_all add: nth_append)
  with c1 c2 show ?thesis by blast
qed

theorem none_constructs_afresh_witness:
  "provider_of (snd (coffee_graph None)) (fst (coffee_graph None)) CoffeeMaker =
     Some (ScopeNone, NewGraph CoffeeMaker_class) \<and>
   deps_ok (map_at (snd (coffee_graph None)) (gmap (fst (coffee_graph None))))
     [CoffeeMaker, Pump, Heater] \<and>
   length [Pump, Heater] < (3::nat) \<and>
   (\<exists>w1 w2.
      resolve 3 (fst (coffee_graph None)) CoffeeMaker (snd (coffee_graph None)) =
        Some (Inr (Inst (length (objects (snd (coffee_graph None))))), w1) \<and>
      resolve 3 (fst (coffee_graph None)) CoffeeMaker w1 =
        Some (Inr (Inst (length (objects w1))), w2) \<and>
      length (objects (snd (coffee_graph None))) < length (objects w1) \<and>
      length (objects w1) < length (objects w2) \<and>
      objects w2 ! length (objects (snd (coffee_graph None))) = cls CoffeeMaker_class \<and>
      objects w2 ! length (objects w1) = cls CoffeeMaker_class)"
proof -
  have a: "provider_of (snd (coffee_graph None)) (fst (coffee_graph None)) CoffeeMaker =
             Some (ScopeNone, NewGraph CoffeeMaker_class)"
    by code_simp
  have b: "deps_ok (map_at (snd (coffee_graph None)) (gmap (fst (coffee_graph None))))
             [CoffeeMaker, Pump, Heater]"
    by code_simp
  have c: "length [Pump, Heater] < (3::nat)" by simp
  from none_constructs_afresh [OF a b c] a b c show ?thesis by simp
qed

text \<open>
  Claim C6 as stated fails: with scope none the call succeeds only if the provider does.
  It throws on both calls when the constructor needs an interface that is not bound
  (\<open>CoffeeMaker\<close> without \<open>Pump\<close>); and with \<open>Pump\<close> unscoped over a \<open>Heater\<close> bound
  through \<open>scopes.weak\<close>, the first \<open>resolve(Pump)\<close> returns and the second throws a
  TypeError.
\<close>

theorem none_scope_resolution_can_fail:
  "provider_of (snd no_pump_graph) (fst no_pump_graph) CoffeeMaker =
     Some (ScopeNone, NewGraph CoffeeMaker_class) \<and>
   map_option fst (resolve 3 (fst no_pump_graph) CoffeeMaker (snd no_pump_graph)) =
     Some (Inl (Error ''Unsatisfied dependency for class Pump'')) \<and>
   provider_of (snd weak_heater) (fst weak_heater) Pump =
     Some (ScopeNone, NewGraph Thermosiphon) \<and>
   map_option fst (resolve 3 (fst weak_heater) Pump (snd weak_heater)) = Some (Inr (Inst 0)) \<and>
   map_option fst (resolve 3 (fst weak_heater) Pump
      (snd (the (resolve 3 (fst weak_heater) Pump (snd weak_heater))))) = Some (Inl TypeError)"
  by code_simp

section \<open>The singleton scope\<close>

text \<open>
  Claim C3, as the code has it. Let interface \<open>i\<close> be bound with scope singleton in a
  graph \<open>g\<close> of the heap, to a constructor whose requirements are met in \<open>g\<close>: they are
  bound, in an order in which each binding needs only the ones before it, and none through
  \<open>scopes.weak\<close>. Then \<open>g.resolve(i)\<close> returns: the cached value when there is one,
  leaving the heap as it was, and otherwise the instance it constructs. Every later call
  \<open>g.resolve(i)\<close>, after any sequence of other operations, returns that same value and
  leaves the heap exactly as it found it: no instance is allocated, so the provider is
  not invoked again.
\<close>

theorem singleton_identity:
  assumes valid: "gid g < length (graph_store w)"
    and bound: "provider_of w g i = Some (ScopeSingleton, mk)"
    and ok: "deps_ok (map_at w (gmap g)) (i # earlier)"
    and fuel: "length earlier < n"
  shows "\<exists>v w1. resolve n g i w = Some (Inr v, w1) \<and>
           (cache_get w g singletonSymbol i = Some v \<and> w1 = w \<or>
            cache_get w g singletonSymbol i = None \<and> v = Inst (length (objects w))) \<and>
           (\<forall>ops w2 m. run_ops ops w1 = Some w2 \<longrightarrow>
              resolve (Suc m) g i w2 = Some (Inr v, w2))"
proof -
  from ok fuel have "\<exists>v w1. resolve n g i w = Some (Inr v, w1)"
    by (intro resolve_total [where order = "i # earlier"]) simp_all
  then obtain v w1 where first: "resolve n g i w = Some (Inr v, w1)" by blast
  from bound first obtain n' where
    run: "singleton (run_maker (resolve n') mk) g i w = Some (Inr v, w1)"
    by (cases n) simp_all
  have hit_or_made: "cache_get w g singletonSymbol i = Some v \<and> w1 = w \<or>
      cache_get w g singletonSymbol i = None \<and> v = Inst (length (objects w))"
  proof (cases "cache_get w g singletonSymbol i")
    case (Some u)
    with run show ?thesis by (simp add: singleton_cached)
  next
    case None
    then have empty: "cache_get (installed g w) g singletonSymbol i = None"
      by (rule cache_get_installed)
    from run have "v = Inst (length (objects w))"
    proof (cases rule: singleton_cases)
      case (cached u)
      with empty show ?thesis by simp
    next
      case (threw e)
      then show ?thesis by simp
    next
      case (made u w2)
      then show ?thesis by (auto dest: run_maker_result)
    qed
    with None show ?thesis by simp
  qed
  have again: "resolve (Suc m) g i w2 = Some (Inr v, w2)"
    if "run_ops ops w1 = Some w2" for ops w2 m
    using valid bound first that by (rule singleton_repeats)
  from first hit_or_made again show ?thesis by blast
qed

theorem singleton_identity_witness:
  "gid (fst library) < length (graph_store (snd library)) \<and>
   provider_of (snd library) (fst library) CoffeeMaker =
     Some (ScopeSingleton, NewGraph CoffeeMaker_class) \<and>
   deps_ok (map_at (snd library) (gmap (fst library))) [CoffeeMaker, Pump, Heater] \<and>
   length [Pump, Heater] < (3::nat) \<and>
   resolve 3 (fst library) CoffeeMaker (snd library) = Some (Inr (Inst 0), library_first) \<and>
   run_ops [OpResolve 3 (fst library) Pump, OpBuild (modify (fst library)),
            OpResolve 3 (fst library) CoffeeMaker] library_first = Some library_later \<and>
   resolve (Suc 0) (fst library) CoffeeMaker library_later = Some (Inr (Inst 0), library_later)"
proof -
  have a: "gid (fst library) < length (graph_store (snd library))"
    by code_simp
  have b: "provider_of (snd library) (fst library) CoffeeMaker =
             Some (ScopeSingleton, NewGraph CoffeeMaker_class)"
    by code_simp
  have c: "deps_ok (map_at (snd library) (gmap (fst library))) [CoffeeMaker, Pump, Heater]"
    by code_simp
  have d: "length [Pump, Heater] < (3::nat)" by simp
  have e: "resolve 3 (fst library) CoffeeMaker (snd library) = Some (Inr (Inst 0), library_first)"
    by code_simp
  have f: "run_ops [OpResolve 3 (fst library) Pump, OpBuild (modify (fst library)),
             OpResolve 3 (fst library) CoffeeMaker] library_first = Some library_later"
    by code_simp
  from singleton_identity [OF a b c d] obtain v w1 where
    first: "resolve 3 (fst library) CoffeeMaker (snd library) = Some (Inr v, w1)"
    and later: "\<forall>ops w2 m. run_ops ops w1 = Some w2 \<longrightarrow>
      resolve (Suc m) (fst library) CoffeeMaker w2 = Some (Inr v, w2)"
    by blast
  from first e have "v = Inst 0" and "w1 = library_first" by simp_all
  with later f have g: "resolve (Suc 0) (fst library) CoffeeMaker library_later =
      Some (Inr (Inst 0), library_later)"
    by blast
  from a b c d e f g show ?thesis by (intro conjI)
qed

text \<open>
  Claim C3 as stated fails: a provider that throws is cached nowhere and runs on every
  call. With \<open>CoffeeMaker\<close> bound as a singleton and \<open>Pump\<close> missing, two calls both
  throw and allocate two coffee makers; with the heater bound through \<open>scopes.weak\<close>
  under the pump, two calls both throw a TypeError and each allocates a coffee maker and
  a pump.
\<close>

theorem singleton_provider_runs_again:
  "provider_of (snd no_pump_library) (fst no_pump_library) CoffeeMaker =
     Some (ScopeSingleton, NewGraph CoffeeMaker_class) \<and>
   map_option fst (resolve 3 (fst no_pump_library) CoffeeMaker (snd no_pump_library)) =
     Some (Inl (Error ''Unsatisfied dependency for class Pump'')) \<and>
   objects no_pump_library_first = [2] \<and>
   map_option fst (resolve 3 (fst no_pump_library) CoffeeMaker no_pump_library_first) =
     Some (Inl (Error ''Unsatisfied dependency for class Pump'')) \<and>
   objects (snd (the (resolve 3 (fst no_pump_library) CoffeeMaker no_pump_library_first))) =
     [2, 2] \<and>
   provider_of (snd weak_library) (fst weak_library) CoffeeMaker =
     Some (ScopeSingleton, NewGraph CoffeeMaker_class) \<and>
   map_option fst (resolve 3 (fst weak_library) CoffeeMaker (snd weak_library)) =
     Some (Inl TypeError) \<and>
   objects weak_library_first = [2, 11] \<and>
   map_option fst (resolve 3 (fst weak_library) CoffeeMaker weak_library_first) =
     Some (Inl TypeError) \<and>
   objects (snd (the (resolve 3 (fst weak_library) CoffeeMaker weak_library_first))) =
     [2, 11, 2, 11]"
  by code_simp



section \<open>The weak scope as written\<close>

text \<open>
  Claim C7. Let \<open>i\<close> be bound with scope weak in a graph \<open>g\<close> of the heap, on which no
  property is defined under \<open>weakSymbol\<close>. When \<open>g.resolve(i)\<close> returns, it returns the
  instance it has just constructed, the graph still has no property under \<open>weakSymbol\<close>,
  it has one under \<open>singletonSymbol\<close>, and the map stored there holds for \<open>i\<close> the
  function \<open>singleton\<close>, not the instance.
\<close>

theorem weak_caches_under_singletonSymbol:
  assumes valid: "gid g < length (graph_store w)"
    and weak0: "getOwnPropertyDescriptor w g weakSymbol = None"
    and bound: "provider_of w g i = Some (ScopeWeak, mk)"
    and run: "resolve n g i w = Some (Inr v, w')"
  shows "getOwnPropertyDescriptor w' g weakSymbol = None \<and>
         getOwnPropertyDescriptor w' g singletonSymbol \<noteq> None \<and>
         cache_get w' g singletonSymbol i = Some SingletonFn \<and>
         v = Inst (length (objects w))"
proof -
  from bound run obtain n' where
    wk: "weak (run_maker (resolve n') mk) g i w = Some (Inr v, w')"
    by (cases n) simp_all
  have mk: "\<And>w r w'. run_maker (resolve n') mk g w = Some (r, w') \<Longrightarrow> frame g w w'"
    using resolve_framed by (rule run_maker_frame)
  from wk show ?thesis
  proof (cases rule: weak_cases)
    case (made u w2)
    from mk [OF made(3)] have f: "frame (g) (installed g w) w2" .
    from f gopd_installed [OF valid]
    have d: "getOwnPropertyDescriptor w2 g singletonSymbol \<noteq> None" by (rule frame_defined)
    from f weak0 have k: "getOwnPropertyDescriptor w2 g weakSymbol = None"
      by (simp add: frame_weak gopd_installed_weak)
    from made(3) have "u = Inst (length (objects w))" by (auto dest: run_maker_result)
    with made d k show ?thesis by (simp add: gopd_cache_set cache_get_cache_set)
  qed (use weak0 in simp_all)
qed

theorem weak_caches_under_singletonSymbol_witness:
  "gid (fst weak_shop) < length (graph_store (snd weak_shop)) \<and>
   getOwnPropertyDescriptor (snd weak_shop) (fst weak_shop) weakSymbol = None \<and>
   provider_of (snd weak_shop) (fst weak_shop) CoffeeMaker =
     Some (ScopeWeak, NewGraph CoffeeMaker_class) \<and>
   resolve 3 (fst weak_shop) CoffeeMaker (snd weak_shop) = Some (Inr (Inst 0), weak_shop_first) \<and>
   getOwnPropertyDescriptor weak_shop_first (fst weak_shop) weakSymbol = None \<and>
   getOwnPropertyDescriptor weak_shop_first (fst weak_shop) singletonSymbol \<noteq> None \<and>
   cache_get weak_shop_first (fst weak_shop) singletonSymbol CoffeeMaker = Some SingletonFn \<and>
   Inst 0 = Inst (length (objects (snd weak_shop)))"
proof -
  have a: "gid (fst weak_shop) < length (graph_store (snd weak_shop))"
    by code_simp
  have b: "getOwnPropertyDescriptor (snd weak_shop) (fst weak_shop) weakSymbol = None"
    by code_simp
  have c: "provider_of (snd weak_shop) (fst weak_shop) CoffeeMaker =
             Some (ScopeWeak, NewGraph CoffeeMaker_class)"
    by code_simp
  have d: "resolve 3 (fst weak_shop) CoffeeMaker (snd weak_shop) =
             Some (Inr (Inst 0), weak_shop_first)"
    by code_simp
  from weak_caches_under_singletonSymbol [OF a b c d] a b c d show ?thesis by simp
qed

text \<open>
  Claim C10. Let \<open>k\<close> be bound with scope weak in a graph \<open>g\<close> of the heap, on which no
  property is defined under \<open>weakSymbol\<close>. If the property under \<open>singletonSymbol\<close> is
  defined on \<open>g\<close>, then \<open>g.resolve(k)\<close> throws a TypeError and changes nothing: the
  property cannot be redefined. And after any resolution on \<open>g\<close> of an interface bound
  with scope singleton or weak, whatever its outcome, that property is defined, so the
  next \<open>g.resolve(k)\<close> throws the TypeError; this is the case of the second resolution
  of a weak-scoped interface.
\<close>

theorem weak_second_resolution_throws:
  assumes valid: "gid g < length (graph_store w0)"
    and weak0: "getOwnPropertyDescriptor w0 g weakSymbol = None"
    and bound: "provider_of w0 g k = Some (ScopeWeak, mk')"
  shows "(getOwnPropertyDescriptor w0 g singletonSymbol \<noteq> None \<longrightarrow>
            resolve (Suc m) g k w0 = Some (Inl TypeError, w0)) \<and>
         (provider_of w0 g i = Some (sc, mk) \<and> sc \<noteq> ScopeNone \<and>
          resolve n g i w0 = Some (r, w) \<longrightarrow>
            getOwnPropertyDescriptor w g singletonSymbol \<noteq> None \<and>
            resolve (Suc m) g k w = Some (Inl TypeError, w))"
proof (intro conjI impI)
  assume "getOwnPropertyDescriptor w0 g singletonSymbol \<noteq> None"
  with weak0 bound show "resolve (Suc m) g k w0 = Some (Inl TypeError, w0)"
    by (simp add: weak_after_defined)
next
  assume prior: "provider_of w0 g i = Some (sc, mk) \<and> sc \<noteq> ScopeNone \<and>
                 resolve n g i w0 = Some (r, w)"
  then have p: "provider_of w0 g i = Some (sc, mk)" and sc: "sc \<noteq> ScopeNone"
    and first: "resolve n g i w0 = Some (r, w)"
    by simp_all
  from valid weak0 p sc first
  show d: "getOwnPropertyDescriptor w g singletonSymbol \<noteq> None"
    by (rule resolve_defines)
  from first have f: "frame g w0 w" by (rule resolve_frame)
  from f weak0 have "getOwnPropertyDescriptor w g weakSymbol = None" by (rule frame_weak)
  moreover from f bound have "provider_of w g k = Some (ScopeWeak, mk')"
    by (blast intro: frame_extends extends_provider_of)
  ultimately show "resolve (Suc m) g k w = Some (Inl TypeError, w)"
    using d by (simp add: weak_after_defined)
qed

theorem weak_second_resolution_throws_witness:
  "gid (fst weak_shop) < length (graph_store (snd weak_shop)) \<and>
   getOwnPropertyDescriptor (snd weak_shop) (fst weak_shop) weakSymbol = None \<and>
   provider_of (snd weak_shop) (fst weak_shop) CoffeeMaker =
     Some (ScopeWeak, NewGraph CoffeeMaker_class) \<and>
   ScopeWeak \<noteq> ScopeNone \<and>
   resolve 3 (fst weak_shop) CoffeeMaker (snd weak_shop) = Some (Inr (Inst 0), weak_shop_first) \<and>
   getOwnPropertyDescriptor weak_shop_first (fst weak_shop) singletonSymbol \<noteq> None \<and>
   resolve (Suc 2) (fst weak_shop) CoffeeMaker weak_shop_first =
     Some (Inl TypeError, weak_shop_first) \<and>
   gid (fst weak_shop) < length (graph_store weak_shop_first) \<and>
   getOwnPropertyDescriptor weak_shop_first (fst weak_shop) weakSymbol = None \<and>
   provider_of weak_shop_first (fst weak_shop) CoffeeMaker =
     Some (ScopeWeak, NewGraph CoffeeMaker_class) \<and>
   resolve (Suc 0) (fst weak_shop) CoffeeMaker weak_shop_first =
     Some (Inl TypeError, weak_shop_first)"
proof -
  have a: "gid (fst weak_shop) < length (graph_store (snd weak_shop))"
    by code_simp
  have b: "getOwnPropertyDescriptor (snd weak_shop) (fst weak_shop) weakSymbol = None"
    by code_simp
  have c: "provider_of (snd weak_shop) (fst weak_shop) CoffeeMaker =
             Some (ScopeWeak, NewGraph CoffeeMaker_class)"
    by code_simp
  have d: "resolve 3 (fst weak_shop) CoffeeMaker (snd weak_shop) =
             Some (Inr (Inst 0), weak_shop_first)"
    by code_simp
  have e: "ScopeWeak \<noteq> ScopeNone" by simp
  have a': "gid (fst weak_shop) < length (graph_store weak_shop_first)"
    by code_simp
  have b': "getOwnPropertyDescriptor weak_shop_first (fst weak_shop) weakSymbol = None"
    by code_simp
  have c': "provider_of weak_shop_first (fst weak_shop) CoffeeMaker =
             Some (ScopeWeak, NewGraph CoffeeMaker_class)"
    by code_simp
  have f: "getOwnPropertyDescriptor weak_shop_first (fst weak_shop) singletonSymbol \<noteq> None"
    by code_simp
  from weak_second_resolution_throws
    [OF a b c, of 2 CoffeeMaker ScopeWeak "NewGraph CoffeeMaker_class" 3 "Inr (Inst 0)"
      weak_shop_first] c d e
  have second: "resolve (Suc 2) (fst weak_shop) CoffeeMaker weak_shop_first =
      Some (Inl TypeError, weak_shop_first)"
    by blast
  from weak_second_resolution_throws [OF a' b' c', of 0] f
  have again: "resolve (Suc 0) (fst weak_shop) CoffeeMaker weak_shop_first =
      Some (Inl TypeError, weak_shop_first)"
    by blast
  from a b c d e f a' b' c' second again show ?thesis by (intro conjI)
qed

end
